theory Spec2Isabelle
  imports Complex_Main "HOL-Library.Word" "HOL-Library.Multiset" "HOL-Library.Sublist"
begin

section \<open>The composable \<open>useTarefas\<close>: a task list with a filter and a watcher\<close>

text \<open>
  The source is the JavaScript composable \<^verbatim>\<open>useTarefas\<close>: a reactive array
  \<^verbatim>\<open>tarefas\<close> of objects \<^verbatim>\<open>{ id, titulo, concluida }\<close>, a filter
  \<^verbatim>\<open>filtro\<close>, the derived list \<^verbatim>\<open>tarefasFiltradas\<close>, the operations
  \<^verbatim>\<open>adicionarTarefa\<close> and \<^verbatim>\<open>removerTarefa\<close>, and a deep watcher that writes
  \<^verbatim>\<open>JSON.stringify(tarefas)\<close> to \<^verbatim>\<open>localStorage\<close> under the key \<^verbatim>\<open>'tarefas'\<close>.
\<close>

subsection \<open>JavaScript strings\<close>

text \<open>
  A JavaScript string is a sequence of 16-bit UTF-16 code units. \<open>js\<close> turns an ASCII
  literal of the theory into such a string.
\<close>

type_synonym code_unit = "16 word"
type_synonym js_string = "code_unit list"

definition js :: "string \<Rightarrow> js_string" where
  "js s = map of_char s"

text \<open>
  \<^verbatim>\<open>String.prototype.trim\<close> removes, at both ends, the code units of the ECMAScript
  productions WhiteSpace (TAB, VT, FF, SP, NBSP, ZWNBSP and the Unicode category Zs) and
  LineTerminator (LF, CR, LS, PS).
\<close>

definition is_white_space :: "code_unit \<Rightarrow> bool" where
  "is_white_space c \<longleftrightarrow>
     c = 0x0009 \<or> c = 0x000A \<or> c = 0x000B \<or> c = 0x000C \<or> c = 0x000D \<or> c = 0x0020 \<or>
     c = 0x00A0 \<or> c = 0x1680 \<or> (0x2000 \<le> c \<and> c \<le> 0x200A) \<or> c = 0x2028 \<or>
     c = 0x2029 \<or> c = 0x202F \<or> c = 0x205F \<or> c = 0x3000 \<or> c = 0xFEFF"

definition trimStart :: "js_string \<Rightarrow> js_string" where
  "trimStart s = dropWhile is_white_space s"

definition trimEnd :: "js_string \<Rightarrow> js_string" where
  "trimEnd s = rev (dropWhile is_white_space (rev s))"

definition trim :: "js_string \<Rightarrow> js_string" where
  "trim s = trimEnd (trimStart s)"

text \<open>In a condition, a string counts as true exactly when it is not empty.\<close>

definition truthy :: "js_string \<Rightarrow> bool" where
  "truthy s \<longleftrightarrow> s \<noteq> []"

subsection \<open>Tasks and the state of the composable\<close>

text \<open>
  The object literal \<^verbatim>\<open>{ id: Date.now(), titulo, concluida: false }\<close>. \<^verbatim>\<open>Date.now()\<close>
  is a whole number of milliseconds; such a JavaScript number is an \<open>int\<close> here.
\<close>

record tarefa =
  id' :: int
  titulo :: js_string
  concluida :: bool

text \<open>
  The state a call of \<^verbatim>\<open>useTarefas\<close> owns or touches: the reactive array, the filter,
  the browser's \<^verbatim>\<open>localStorage\<close> (keys and values are strings), and whether the
  watcher's callback is queued. The framework does not run a watcher's callback inside
  the mutation that triggers it: it queues the callback and runs it when the queue is
  flushed, once, with the array as it is then.
\<close>

record estado =
  tarefas :: "tarefa list"
  filtro :: js_string
  localStorage :: "js_string \<rightharpoonup> js_string"
  watch_pendente :: bool

subsection \<open>The array methods the source calls\<close>

text \<open>
  \<^verbatim>\<open>Array.prototype.findIndex\<close>: the index of the first element the predicate accepts,
  \<open>-1\<close> when there is none.
\<close>

fun findIndex_from :: "nat \<Rightarrow> ('a \<Rightarrow> bool) \<Rightarrow> 'a list \<Rightarrow> int" where
  "findIndex_from k P [] = - 1"
| "findIndex_from k P (x # xs) = (if P x then int k else findIndex_from (Suc k) P xs)"

definition findIndex :: "('a \<Rightarrow> bool) \<Rightarrow> 'a list \<Rightarrow> int" where
  "findIndex P xs = findIndex_from 0 P xs"

text \<open>
  \<^verbatim>\<open>Array.prototype.splice(start, deleteCount)\<close> with no items to insert: a negative
  start counts from the end, both arguments are clamped to the array.
\<close>

definition splice :: "int \<Rightarrow> int \<Rightarrow> 'a list \<Rightarrow> 'a list" where
  "splice start deleteCount xs =
     (let len = int (length xs);
          actualStart = (if start < 0 then max (len + start) 0 else min start len);
          actualDeleteCount = min (max deleteCount 0) (len - actualStart)
      in take (nat actualStart) xs @ drop (nat (actualStart + actualDeleteCount)) xs)"

text \<open>\<^verbatim>\<open>tarefas.push(t)\<close> on the reactive array: the watcher is triggered.\<close>

definition push :: "tarefa \<Rightarrow> estado \<Rightarrow> estado" where
  "push t st = st\<lparr>tarefas := tarefas st @ [t], watch_pendente := True\<rparr>"

subsection \<open>JSON values and \<^verbatim>\<open>JSON.stringify\<close> of the task array\<close>

text \<open>
  The values \<^verbatim>\<open>JSON.parse\<close> can return. A number is kept as the exact decimal value
  of its literal; the rounding to a double is not modelled, and it does not arise for
  the whole numbers below \<open>2 ^ 53\<close> that \<^verbatim>\<open>Date.now()\<close> yields. An object is the
  list of its members in the order of the text.
\<close>

datatype json =
    JNull
  | JBool bool
  | JNumber rat
  | JString js_string
  | JArray "json list"
  | JObject "(js_string \<times> json) list"

text \<open>The decimal digits of a whole number, as \<^verbatim>\<open>Number::toString\<close> prints them.\<close>

definition digit_char :: "nat \<Rightarrow> code_unit" where
  "digit_char d = of_nat (48 + d)"

fun digits :: "nat \<Rightarrow> js_string" where
  "digits n = (if n < 10 then [digit_char n] else digits (n div 10) @ [digit_char (n mod 10)])"

declare digits.simps [simp del]

definition number_to_string :: "int \<Rightarrow> js_string" where
  "number_to_string i = (if i < 0 then 0x2D # digits (nat (- i)) else digits (nat i))"

definition boolean_to_string :: "bool \<Rightarrow> js_string" where
  "boolean_to_string b = (if b then js ''true'' else js ''false'')"

text \<open>
  \<^verbatim>\<open>QuoteJSONString\<close>: the string between two quotation marks, with the two-character
  escapes for BS, HT, LF, FF, CR, the quotation mark and the backslash, and the escape
  \<^verbatim>\<open>\uXXXX\<close> (four lower-case hexadecimal digits) for the other code units below
  0x20 and for a surrogate that is not part of a pair.
\<close>

definition hex_digit :: "nat \<Rightarrow> code_unit" where
  "hex_digit d = of_nat (if d < 10 then 48 + d else 87 + d)"

definition unicode_escape :: "code_unit \<Rightarrow> js_string" where
  "unicode_escape c =
     [0x5C, 0x75, hex_digit (unat c div 4096), hex_digit (unat c div 256 mod 16),
      hex_digit (unat c div 16 mod 16), hex_digit (unat c mod 16)]"

definition is_high_surrogate :: "code_unit \<Rightarrow> bool" where
  "is_high_surrogate c \<longleftrightarrow> 0xD800 \<le> c \<and> c \<le> 0xDBFF"

definition is_low_surrogate :: "code_unit \<Rightarrow> bool" where
  "is_low_surrogate c \<longleftrightarrow> 0xDC00 \<le> c \<and> c \<le> 0xDFFF"

fun quote_units :: "js_string \<Rightarrow> js_string" where
  "quote_units [] = []"
| "quote_units (c # cs) =
     (if c = 0x08 then [0x5C, 0x62] @ quote_units cs
      else if c = 0x09 then [0x5C, 0x74] @ quote_units cs
      else if c = 0x0A then [0x5C, 0x6E] @ quote_units cs
      else if c = 0x0C then [0x5C, 0x66] @ quote_units cs
      else if c = 0x0D then [0x5C, 0x72] @ quote_units cs
      else if c = 0x22 then [0x5C, 0x22] @ quote_units cs
      else if c = 0x5C then [0x5C, 0x5C] @ quote_units cs
      else if c < 0x20 then unicode_escape c @ quote_units cs
      else if is_high_surrogate c then
        (case cs of
           [] \<Rightarrow> unicode_escape c
         | d # ds \<Rightarrow>
             if is_low_surrogate d then c # d # quote_units ds
             else unicode_escape c @ quote_units cs)
      else if is_low_surrogate c then unicode_escape c @ quote_units cs
      else c # quote_units cs)"

definition QuoteJSONString :: "js_string \<Rightarrow> js_string" where
  "QuoteJSONString s = 0x22 # quote_units s @ [0x22]"

text \<open>
  \<^verbatim>\<open>SerializeJSONObject\<close> and \<^verbatim>\<open>SerializeJSONArray\<close> without indentation: a member
  is the quoted key, a colon and the value; members and elements are separated by commas.
  The keys of a task come in the order of the object literal: id, titulo, concluida.
\<close>

definition serialize_member :: "string \<Rightarrow> js_string \<Rightarrow> js_string" where
  "serialize_member k v = QuoteJSONString (js k) @ 0x3A # v"

definition stringify_tarefa :: "tarefa \<Rightarrow> js_string" where
  "stringify_tarefa t =
     0x7B # serialize_member ''id'' (number_to_string (id' t)) @
     0x2C # serialize_member ''titulo'' (QuoteJSONString (titulo t)) @
     0x2C # serialize_member ''concluida'' (boolean_to_string (concluida t)) @ [0x7D]"

fun join_comma :: "js_string list \<Rightarrow> js_string" where
  "join_comma [] = []"
| "join_comma [x] = x"
| "join_comma (x # y # ys) = x @ 0x2C # join_comma (y # ys)"

definition JSON_stringify :: "tarefa list \<Rightarrow> js_string" where
  "JSON_stringify ts = 0x5B # join_comma (map stringify_tarefa ts) @ [0x5D]"

subsection \<open>\<^verbatim>\<open>JSON.parse\<close>\<close>

text \<open>
  A recursive-descent parser of the JSON grammar. \<open>None\<close> is the SyntaxError that
  \<^verbatim>\<open>JSON.parse\<close> throws. The functions that read one token return it with the rest
  of the input.
\<close>

definition is_json_ws :: "code_unit \<Rightarrow> bool" where
  "is_json_ws c \<longleftrightarrow> c = 0x20 \<or> c = 0x09 \<or> c = 0x0A \<or> c = 0x0D"

definition skip_ws :: "js_string \<Rightarrow> js_string" where
  "skip_ws s = dropWhile is_json_ws s"

definition is_digit :: "code_unit \<Rightarrow> bool" where
  "is_digit c \<longleftrightarrow> 0x30 \<le> c \<and> c \<le> 0x39"

definition hex_value :: "code_unit \<Rightarrow> nat option" where
  "hex_value c =
     (if 0x30 \<le> c \<and> c \<le> 0x39 then Some (unat c - 48)
      else if 0x41 \<le> c \<and> c \<le> 0x46 then Some (unat c - 55)
      else if 0x61 \<le> c \<and> c \<le> 0x66 then Some (unat c - 87)
      else None)"

definition hex4 :: "code_unit \<Rightarrow> code_unit \<Rightarrow> code_unit \<Rightarrow> code_unit \<Rightarrow> code_unit option" where
  "hex4 a b c d =
     (case (hex_value a, hex_value b, hex_value c, hex_value d) of
        (Some p, Some q, Some r, Some s) \<Rightarrow> Some (of_nat (((p * 16 + q) * 16 + r) * 16 + s))
      | _ \<Rightarrow> None)"

definition unescape :: "code_unit \<Rightarrow> code_unit option" where
  "unescape e =
     (if e = 0x22 then Some 0x22 else if e = 0x5C then Some 0x5C
      else if e = 0x2F then Some 0x2F else if e = 0x62 then Some 0x08
      else if e = 0x66 then Some 0x0C else if e = 0x6E then Some 0x0A
      else if e = 0x72 then Some 0x0D else if e = 0x74 then Some 0x09
      else None)"

definition cons_char ::
  "code_unit \<Rightarrow> (js_string \<times> js_string) option \<Rightarrow> (js_string \<times> js_string) option" where
  "cons_char u p = (case p of None \<Rightarrow> None | Some (s, r) \<Rightarrow> Some (u # s, r))"

text \<open>The characters of a string literal, after its opening quotation mark.\<close>

fun parse_chars :: "js_string \<Rightarrow> (js_string \<times> js_string) option" where
  "parse_chars [] = None"
| "parse_chars (c # cs) =
     (if c = 0x22 then Some ([], cs)
      else if c = 0x5C then
        (case cs of
           [] \<Rightarrow> None
         | e # es \<Rightarrow>
             if e = 0x75 then
               (case es of
                  h1 # h2 # h3 # h4 # r \<Rightarrow>
                    (case hex4 h1 h2 h3 h4 of
                       None \<Rightarrow> None
                     | Some u \<Rightarrow> cons_char u (parse_chars r))
                | _ \<Rightarrow> None)
             else
               (case unescape e of
                  None \<Rightarrow> None
                | Some u \<Rightarrow> cons_char u (parse_chars es)))
      else if c < 0x20 then None
      else cons_char c (parse_chars cs))"

text \<open>
  A number literal: an optional minus sign, the integer part (a single 0, or digits that
  start with 1 to 9), an optional fraction and an optional exponent.
\<close>

definition digit_value :: "code_unit \<Rightarrow> nat" where
  "digit_value c = unat c - 48"

definition digits_value :: "js_string \<Rightarrow> nat" where
  "digits_value ds = foldl (\<lambda>a c. a * 10 + digit_value c) 0 ds"

definition power10 :: "int \<Rightarrow> rat" where
  "power10 k = (if 0 \<le> k then 10 ^ nat k else 1 / 10 ^ nat (- k))"

definition parse_sign :: "js_string \<Rightarrow> bool \<times> js_string" where
  "parse_sign s =
     (case s of [] \<Rightarrow> (False, s) | c # cs \<Rightarrow> if c = 0x2D then (True, cs) else (False, s))"

definition parse_int_part :: "js_string \<Rightarrow> (js_string \<times> js_string) option" where
  "parse_int_part s =
     (case s of
        [] \<Rightarrow> None
      | c # cs \<Rightarrow>
          if c = 0x30 then Some ([c], cs)
          else if is_digit c then Some (takeWhile is_digit s, dropWhile is_digit s)
          else None)"

definition parse_frac :: "js_string \<Rightarrow> (js_string \<times> js_string) option" where
  "parse_frac s =
     (case s of
        [] \<Rightarrow> Some ([], s)
      | c # cs \<Rightarrow>
          if c = 0x2E then
            (if takeWhile is_digit cs = [] then None
             else Some (takeWhile is_digit cs, dropWhile is_digit cs))
          else Some ([], s))"

definition parse_exp_sign :: "js_string \<Rightarrow> bool \<times> js_string" where
  "parse_exp_sign s =
     (case s of
        [] \<Rightarrow> (False, s)
      | c # cs \<Rightarrow> if c = 0x2D then (True, cs) else if c = 0x2B then (False, cs) else (False, s))"

definition parse_exp :: "js_string \<Rightarrow> (int \<times> js_string) option" where
  "parse_exp s =
     (case s of
        [] \<Rightarrow> Some (0, s)
      | c # cs \<Rightarrow>
          if c = 0x65 \<or> c = 0x45 then
            (case parse_exp_sign cs of
               (neg, ds) \<Rightarrow>
                 if takeWhile is_digit ds = [] then None
                 else Some ((if neg then - int (digits_value (takeWhile is_digit ds))
                             else int (digits_value (takeWhile is_digit ds))),
                            dropWhile is_digit ds))
          else Some (0, s))"

definition parse_number :: "js_string \<Rightarrow> (rat \<times> js_string) option" where
  "parse_number s =
     (case parse_sign s of
        (neg, s1) \<Rightarrow>
          (case parse_int_part s1 of
             None \<Rightarrow> None
           | Some (ip, s2) \<Rightarrow>
               (case parse_frac s2 of
                  None \<Rightarrow> None
                | Some (fp, s3) \<Rightarrow>
                    (case parse_exp s3 of
                       None \<Rightarrow> None
                     | Some (e, s4) \<Rightarrow>
                         Some ((if neg then - 1 else 1) * of_nat (digits_value (ip @ fp))
                                 * power10 (e - int (length fp)), s4)))))"

text \<open>A string, one of the three literal names, or a number.\<close>

definition parse_scalar :: "js_string \<Rightarrow> (json \<times> js_string) option" where
  "parse_scalar s =
     (case s of
        [] \<Rightarrow> None
      | c # cs \<Rightarrow>
          if c = 0x22 then
            (case parse_chars cs of None \<Rightarrow> None | Some (x, r) \<Rightarrow> Some (JString x, r))
          else if take 4 s = js ''true'' then Some (JBool True, drop 4 s)
          else if take 5 s = js ''false'' then Some (JBool False, drop 5 s)
          else if take 4 s = js ''null'' then Some (JNull, drop 4 s)
          else (case parse_number s of None \<Rightarrow> None | Some (x, r) \<Rightarrow> Some (JNumber x, r)))"

text \<open>The input after a number literal: nothing, or a character that cannot continue the literal.\<close>

definition number_end :: "js_string \<Rightarrow> bool" where
  "number_end r = (case r of [] \<Rightarrow> True
     | c # _ \<Rightarrow> \<not> is_digit c \<and> c \<noteq> 0x2E \<and> c \<noteq> 0x65 \<and> c \<noteq> 0x45)"

lemma length_skip_ws: "length (skip_ws s) \<le> length s"
  by (simp add: skip_ws_def length_dropWhile_le)

lemma skip_ws_Cons_length: "skip_ws s = d # ds \<Longrightarrow> length ds < length s"
  using length_skip_ws [of s] by simp

lemma parse_chars_length: "parse_chars s = Some (x, r) \<Longrightarrow> length r < length s"
  by (induction s arbitrary: x r rule: parse_chars.induct)
     (fastforce simp: cons_char_def split: if_splits list.splits option.splits)+

text \<open>
  Values, the elements of an array after its opening bracket, and the members of an
  object after its opening brace. Elements and members go on only when the value just
  read has consumed input, which every value does; the test makes the recursion
  well-founded on the length of the input.
\<close>

function parse_value :: "js_string \<Rightarrow> (json \<times> js_string) option"
  and parse_elements :: "js_string \<Rightarrow> (json list \<times> js_string) option"
  and parse_members :: "js_string \<Rightarrow> ((js_string \<times> json) list \<times> js_string) option"
where
  "parse_value s =
     (case s of
        [] \<Rightarrow> None
      | c # cs \<Rightarrow>
          if c = 0x5B then
            (case skip_ws cs of
               [] \<Rightarrow> None
             | d # ds \<Rightarrow>
                 if d = 0x5D then Some (JArray [], ds)
                 else (case parse_elements (d # ds) of
                         None \<Rightarrow> None
                       | Some (vs, r) \<Rightarrow> Some (JArray vs, r)))
          else if c = 0x7B then
            (case skip_ws cs of
               [] \<Rightarrow> None
             | d # ds \<Rightarrow>
                 if d = 0x7D then Some (JObject [], ds)
                 else (case parse_members (d # ds) of
                         None \<Rightarrow> None
                       | Some (ms, r) \<Rightarrow> Some (JObject ms, r)))
          else parse_scalar s)"
| "parse_elements s =
     (case parse_value s of
        None \<Rightarrow> None
      | Some (v, r) \<Rightarrow>
          if length r < length s then
            (case skip_ws r of
               [] \<Rightarrow> None
             | d # ds \<Rightarrow>
                 if d = 0x2C then
                   (case parse_elements (skip_ws ds) of
                      None \<Rightarrow> None
                    | Some (vs, r') \<Rightarrow> Some (v # vs, r'))
                 else if d = 0x5D then Some ([v], ds)
                 else None)
          else None)"
| "parse_members s =
     (case s of
        [] \<Rightarrow> None
      | q # cs \<Rightarrow>
          if q = 0x22 then
            (case parse_chars cs of
               None \<Rightarrow> None
             | Some (k, r) \<Rightarrow>
                 (case skip_ws r of
                    [] \<Rightarrow> None
                  | p # r1 \<Rightarrow>
                      if p = 0x3A then
                        (case parse_value (skip_ws r1) of
                           None \<Rightarrow> None
                         | Some (v, r2) \<Rightarrow>
                             if length r2 < length (skip_ws r1) then
                               (case skip_ws r2 of
                                  [] \<Rightarrow> None
                                | d # ds \<Rightarrow>
                                    if d = 0x2C then
                                      (case parse_members (skip_ws ds) of
                                         None \<Rightarrow> None
                                       | Some (ms, r') \<Rightarrow> Some ((k, v) # ms, r'))
                                    else if d = 0x7D then Some ([(k, v)], ds)
                                    else None)
                             else None)
                      else None))
          else None)"
  by pat_completeness auto

termination
proof (relation "measure (\<lambda>x. case x of Inl s \<Rightarrow> 2 * length s
                                   | Inr (Inl s) \<Rightarrow> 2 * length s + 1
                                   | Inr (Inr s) \<Rightarrow> 2 * length s + 1)", goal_cases)
  case 1
  show ?case by simp
next
  case (2 s c cs d ds)
  then show ?case using skip_ws_Cons_length [of cs d ds] by simp
next
  case (3 s c cs d ds)
  then show ?case using skip_ws_Cons_length [of cs d ds] by simp
next
  case (4 s)
  show ?case by simp
next
  case (5 s x v r d ds)
  then show ?case using skip_ws_Cons_length [of r d ds] length_skip_ws [of ds] by simp
next
  case (6 s q cs x k r p r1)
  then show ?case
    using parse_chars_length [of cs k r] skip_ws_Cons_length [of r p r1] length_skip_ws [of r1]
    by simp
next
  case (7 s q cs x k r p r1 y v r2 d ds)
  then show ?case
    using parse_chars_length [of cs k r] skip_ws_Cons_length [of r p r1] length_skip_ws [of r1]
      skip_ws_Cons_length [of r2 d ds] length_skip_ws [of ds]
    by simp
qed

declare parse_value.simps [simp del] parse_elements.simps [simp del] parse_members.simps [simp del]

text \<open>\<^verbatim>\<open>JSON.parse(text)\<close>: one value, with white space around it and nothing else.\<close>

datatype erro = SyntaxError

definition JSON_parse :: "js_string \<Rightarrow> erro + json" where
  "JSON_parse s =
     (case parse_value (skip_ws s) of
        None \<Rightarrow> Inl SyntaxError
      | Some (v, r) \<Rightarrow> if skip_ws r = [] then Inr v else Inl SyntaxError)"

subsection \<open>Task arrays among the JSON values\<close>

text \<open>
  The JSON value that a task array is, and the reading of a JSON value as a task array:
  an array of objects with exactly the members id (a whole number), titulo (a string)
  and concluida (a boolean), in this order.
\<close>

definition tarefa_json :: "tarefa \<Rightarrow> json" where
  "tarefa_json t =
     JObject [(js ''id'', JNumber (of_int (id' t))), (js ''titulo'', JString (titulo t)),
              (js ''concluida'', JBool (concluida t))]"

definition inteiro :: "rat \<Rightarrow> int option" where
  "inteiro x = (if of_int \<lfloor>x\<rfloor> = x then Some \<lfloor>x\<rfloor> else None)"

definition tarefa_de_json :: "json \<Rightarrow> tarefa option" where
  "tarefa_de_json v =
     (case v of
        JObject [(k1, JNumber x), (k2, JString s), (k3, JBool b)] \<Rightarrow>
          if k1 = js ''id'' \<and> k2 = js ''titulo'' \<and> k3 = js ''concluida'' then
            (case inteiro x of
               None \<Rightarrow> None
             | Some i \<Rightarrow> Some \<lparr>id' = i, titulo = s, concluida = b\<rparr>)
          else None
      | _ \<Rightarrow> None)"

definition tarefas_de_json :: "json \<Rightarrow> tarefa list option" where
  "tarefas_de_json v = (case v of JArray vs \<Rightarrow> those (map tarefa_de_json vs) | _ \<Rightarrow> None)"

subsection \<open>The derived list and the operations\<close>

text \<open>
  \<^verbatim>\<open>
  switch (filtro.value) {
    case 'ativas':     return tarefas.filter(tarefa => !tarefa.concluida);
    case 'concluidas': return tarefas.filter(tarefa => tarefa.concluida);
    default:           return tarefas;
  }
  \<close>
\<close>

definition tarefasFiltradas :: "estado \<Rightarrow> tarefa list" where
  "tarefasFiltradas st =
     (if filtro st = js ''ativas'' then filter (\<lambda>t. \<not> concluida t) (tarefas st)
      else if filtro st = js ''concluidas'' then filter (\<lambda>t. concluida t) (tarefas st)
      else tarefas st)"

text \<open>
  \<^verbatim>\<open>
  function adicionarTarefa(titulo) {
    if (titulo.trim()) {
      tarefas.push({ id: Date.now(), titulo, concluida: false });
    }
  }
  \<close>
  The reading of the clock is the first argument.
\<close>

definition adicionarTarefa :: "int \<Rightarrow> js_string \<Rightarrow> estado \<Rightarrow> estado" where
  "adicionarTarefa agora t st =
     (if truthy (trim t) then push \<lparr>id' = agora, titulo = t, concluida = False\<rparr> st
      else st)"

text \<open>
  \<^verbatim>\<open>
  function removerTarefa(id) {
    const indice = tarefas.findIndex(tarefa => tarefa.id === id);
    if (indice !== -1) {
      tarefas.splice(indice, 1);
    }
  }
  \<close>
\<close>

definition removerTarefa :: "int \<Rightarrow> estado \<Rightarrow> estado" where
  "removerTarefa i st =
     (let indice = findIndex (\<lambda>t. id' t = i) (tarefas st)
      in if indice \<noteq> - 1
         then st\<lparr>tarefas := splice indice 1 (tarefas st), watch_pendente := True\<rparr>
         else st)"

text \<open>The assignment \<^verbatim>\<open>filtro.value = v\<close> of the presentation layer.\<close>

definition definir_filtro :: "js_string \<Rightarrow> estado \<Rightarrow> estado" where
  "definir_filtro v st = st\<lparr>filtro := v\<rparr>"

text \<open>
  Modelled from the spec: the presentation layer's direct write
  \<^verbatim>\<open>tarefa.concluida = b\<close> to the task at position \<open>i\<close> of the reactive array (the
  components that do it are not among the sources). The reactive proxy triggers the deep
  watcher only when the value written differs from the one held.
\<close>

definition definir_concluida :: "nat \<Rightarrow> bool \<Rightarrow> estado \<Rightarrow> estado" where
  "definir_concluida i b st =
     (if i < length (tarefas st) \<and> concluida (tarefas st ! i) \<noteq> b
      then st\<lparr>tarefas := (tarefas st)[i := (tarefas st ! i)\<lparr>concluida := b\<rparr>],
              watch_pendente := True\<rparr>
      else st)"

text \<open>
  \<^verbatim>\<open>
  watch(tarefas, (novasTarefas) => {
    localStorage.setItem('tarefas', JSON.stringify(novasTarefas));
  }, { deep: true });
  \<close>
  \<open>watch_callback\<close> is the callback, \<open>flush\<close> the framework running the queued
  callback. The storage is taken to have room for the text.
\<close>

definition watch_callback :: "estado \<Rightarrow> estado" where
  "watch_callback st =
     st\<lparr>localStorage := (localStorage st)(js ''tarefas'' \<mapsto> JSON_stringify (tarefas st))\<rparr>"

definition flush :: "estado \<Rightarrow> estado" where
  "flush st = (if watch_pendente st then (watch_callback st)\<lparr>watch_pendente := False\<rparr> else st)"

text \<open>
  \<^verbatim>\<open>
  const tarefas = reactive(JSON.parse(localStorage.getItem('tarefas') || '[]'));
  const filtro = ref('todas');
  \<close>
  \<^verbatim>\<open>getItem\<close> gives null for a key that is absent; null and the empty string are
  replaced by the text of the empty array. The exception of \<^verbatim>\<open>JSON.parse\<close> is not
  caught. When the text is JSON but not an array of tasks, the source keeps the parsed
  value as it is, which the typed state does not describe: \<open>Fora_do_modelo\<close>.
\<close>

datatype inicio = Pronto estado | Fora_do_modelo json

definition getItem :: "(js_string \<rightharpoonup> js_string) \<Rightarrow> js_string \<Rightarrow> js_string option" where
  "getItem ls k = ls k"

definition useTarefas :: "(js_string \<rightharpoonup> js_string) \<Rightarrow> erro + inicio" where
  "useTarefas ls =
     (let texto = (case getItem ls (js ''tarefas'') of
                     None \<Rightarrow> js ''[]''
                   | Some v \<Rightarrow> if truthy v then v else js ''[]'')
      in case JSON_parse texto of
           Inl e \<Rightarrow> Inl e
         | Inr v \<Rightarrow>
             (case tarefas_de_json v of
                None \<Rightarrow> Inr (Fora_do_modelo v)
              | Some ts \<Rightarrow>
                  Inr (Pronto \<lparr>tarefas = ts, filtro = js ''todas'', localStorage = ls,
                               watch_pendente = False\<rparr>)))"

subsection \<open>Runs of the composable\<close>

text \<open>The calls and writes the presentation layer can make, and a run of calls of \<^verbatim>\<open>adicionarTarefa\<close>.\<close>

datatype evento =
    Adicionar int js_string
  | Remover int
  | Concluir nat bool
  | Filtrar js_string

fun executar :: "evento \<Rightarrow> estado \<Rightarrow> estado" where
  "executar (Adicionar agora t) st = adicionarTarefa agora t st"
| "executar (Remover i) st = removerTarefa i st"
| "executar (Concluir i b) st = definir_concluida i b st"
| "executar (Filtrar v) st = definir_filtro v st"

fun adicionar_varias :: "(int \<times> js_string) list \<Rightarrow> estado \<Rightarrow> estado" where
  "adicionar_varias [] st = st"
| "adicionar_varias ((agora, t) # cs) st = adicionar_varias cs (adicionarTarefa agora t st)"

text \<open>The readings of the clock in the calls of a run that append a task.\<close>

definition relogios :: "(int \<times> js_string) list \<Rightarrow> int list" where
  "relogios cs = map fst (filter (\<lambda>(agora, t). truthy (trim t)) cs)"

text \<open>The state that \<^verbatim>\<open>useTarefas\<close> starts with on an empty store.\<close>

abbreviation vazio :: estado where
  "vazio \<equiv> \<lparr>tarefas = [], filtro = js ''todas'', localStorage = Map.empty, watch_pendente = False\<rparr>"

section \<open>Properties of the array methods\<close>

lemma findIndex_from_none:
  "(\<forall>x \<in> set xs. \<not> P x) \<Longrightarrow> findIndex_from k P xs = - 1"
  by (induction xs arbitrary: k) auto

lemma findIndex_from_first:
  "P x \<Longrightarrow> (\<forall>y \<in> set pre. \<not> P y) \<Longrightarrow>
     findIndex_from k P (pre @ x # post) = int (k + length pre)"
  by (induction pre arbitrary: k) auto

lemma findIndex_none: "(\<forall>x \<in> set xs. \<not> P x) \<Longrightarrow> findIndex P xs = - 1"
  by (simp add: findIndex_def findIndex_from_none)

lemma findIndex_first:
  "P x \<Longrightarrow> (\<forall>y \<in> set pre. \<not> P y) \<Longrightarrow> findIndex P (pre @ x # post) = int (length pre)"
  by (simp add: findIndex_def findIndex_from_first)

lemma splice_one: "splice (int (length pre)) 1 (pre @ x # post) = pre @ post"
  by (simp add: splice_def Let_def min_def max_def nat_add_distrib)

lemma first_match_split:
  "\<exists>x \<in> set xs. P x \<Longrightarrow>
     \<exists>pre x post. xs = pre @ x # post \<and> P x \<and> (\<forall>y \<in> set pre. \<not> P y)"
  by (metis split_list_first_prop)

lemma removerTarefa_absent:
  "i \<notin> id' ` set (tarefas st) \<Longrightarrow> removerTarefa i st = st"
proof -
  assume "i \<notin> id' ` set (tarefas st)"
  then have "\<forall>t \<in> set (tarefas st). \<not> id' t = i" by auto
  then have "findIndex (\<lambda>t. id' t = i) (tarefas st) = - 1" by (rule findIndex_none)
  then show ?thesis by (simp add: removerTarefa_def)
qed

lemma removerTarefa_first:
  "id' t = i \<Longrightarrow> i \<notin> id' ` set pre \<Longrightarrow> tarefas st = pre @ t # post \<Longrightarrow>
     removerTarefa i st = st\<lparr>tarefas := pre @ post, watch_pendente := True\<rparr>"
proof -
  assume t: "id' t = i" and pre: "i \<notin> id' ` set pre" and ts: "tarefas st = pre @ t # post"
  from pre have "\<forall>y \<in> set pre. \<not> id' y = i" by auto
  with t have "findIndex (\<lambda>t. id' t = i) (pre @ t # post) = int (length pre)"
    by (intro findIndex_first) simp_all
  then show ?thesis by (simp add: removerTarefa_def ts splice_one)
qed

section \<open>Every JSON value consumes input\<close>

text \<open>
  A value that is read is never empty, so the test on the lengths in \<open>parse_elements\<close>
  and \<open>parse_members\<close> never rejects an input: both satisfy their equations without it.
\<close>

lemma parse_exp_length: "parse_exp s = Some (e, r) \<Longrightarrow> length r \<le> length s"
  using length_dropWhile_le [of is_digit]
  by (auto simp: parse_exp_def parse_exp_sign_def le_SucI split: list.splits if_splits prod.splits)

lemma parse_frac_length: "parse_frac s = Some (f, r) \<Longrightarrow> length r \<le> length s"
  using length_dropWhile_le [of is_digit]
  by (auto simp: parse_frac_def le_SucI split: list.splits if_splits)

lemma parse_int_part_length: "parse_int_part s = Some (ip, r) \<Longrightarrow> length r < length s"
  using length_dropWhile_le [of is_digit]
  by (auto simp: parse_int_part_def less_Suc_eq_le split: list.splits if_splits)

lemma parse_sign_length: "parse_sign s = (neg, r) \<Longrightarrow> length r \<le> length s"
  by (auto simp: parse_sign_def split: list.splits if_splits)

lemma parse_number_length: "parse_number s = Some (x, r) \<Longrightarrow> length r < length s"
proof -
  assume a: "parse_number s = Some (x, r)"
  obtain neg s1 where 1: "parse_sign s = (neg, s1)" by (cases "parse_sign s")
  from a 1 obtain ip s2 where 2: "parse_int_part s1 = Some (ip, s2)"
    by (auto simp: parse_number_def split: option.splits)
  from a 1 2 obtain fp s3 where 3: "parse_frac s2 = Some (fp, s3)"
    by (auto simp: parse_number_def split: option.splits)
  from a 1 2 3 obtain e where 4: "parse_exp s3 = Some (e, r)"
    by (auto simp: parse_number_def split: option.splits)
  show ?thesis
    using parse_sign_length [OF 1] parse_int_part_length [OF 2] parse_frac_length [OF 3]
      parse_exp_length [OF 4] by simp
qed

lemma parse_scalar_length: "parse_scalar s = Some (v, r) \<Longrightarrow> length r < length s"
  by (auto simp: parse_scalar_def js_def split: list.splits if_splits option.splits
      dest: parse_chars_length parse_number_length)

lemma parse_consumes:
  "(\<forall>v r. parse_value s = Some (v, r) \<longrightarrow> length r < length s)"
  "(\<forall>vs r. parse_elements s1 = Some (vs, r) \<longrightarrow> length r < length s1)"
  "(\<forall>ms r. parse_members s2 = Some (ms, r) \<longrightarrow> length r < length s2)"
proof (induction s and s1 and s2 rule: parse_value_parse_elements_parse_members.induct)
  case (1 s)
  show ?case
  proof (intro allI impI)
    fix v r assume a: "parse_value s = Some (v, r)"
    show "length r < length s"
    proof (cases s)
      case Nil
      with a show ?thesis by (simp add: parse_value.simps)
    next
      case (Cons c cs)
      show ?thesis
      proof (cases "c = 0x5B")
        case True
        show ?thesis
        proof (cases "skip_ws cs")
          case Nil
          with a Cons True show ?thesis by (simp add: parse_value.simps)
        next
          case cs: (Cons d ds)
          show ?thesis
          proof (cases "d = 0x5D")
            case d: True
            with a Cons True cs have "r = ds" by (simp add: parse_value.simps)
            then show ?thesis using skip_ws_Cons_length [OF cs] Cons by simp
          next
            case d: False
            from a Cons True cs d obtain vs where "parse_elements (d # ds) = Some (vs, r)"
              by (auto simp: parse_value.simps split: option.splits)
            with 1(1) [OF Cons True cs d] have "length r < length (d # ds)" by blast
            then show ?thesis using skip_ws_Cons_length [OF cs] Cons by simp
          qed
        qed
      next
        case nb: False
        show ?thesis
        proof (cases "c = 0x7B")
          case True
          show ?thesis
          proof (cases "skip_ws cs")
            case Nil
            with a Cons nb True show ?thesis by (simp add: parse_value.simps)
          next
            case cs: (Cons d ds)
            show ?thesis
            proof (cases "d = 0x7D")
              case d: True
              with a Cons nb True cs have "r = ds" by (simp add: parse_value.simps)
              then show ?thesis using skip_ws_Cons_length [OF cs] Cons by simp
            next
              case d: False
              from a Cons nb True cs d obtain ms where "parse_members (d # ds) = Some (ms, r)"
                by (auto simp: parse_value.simps split: option.splits)
              with 1(2) [OF Cons nb True cs d] have "length r < length (d # ds)" by blast
              then show ?thesis using skip_ws_Cons_length [OF cs] Cons by simp
            qed
          qed
        next
          case False
          with a Cons nb have "parse_scalar s = Some (v, r)" by (simp add: parse_value.simps)
          then show ?thesis by (rule parse_scalar_length)
        qed
      qed
    qed
  qed
next
  case (2 s)
  show ?case
  proof (intro allI impI)
    fix vs r assume a: "parse_elements s = Some (vs, r)"
    then obtain v r0 where v: "parse_value s = Some (v, r0)" and l: "length r0 < length s"
      by (subst (asm) parse_elements.simps) (auto split: option.splits if_splits)
    from a v l obtain d ds where ds: "skip_ws r0 = d # ds"
      by (subst (asm) parse_elements.simps) (auto split: list.splits)
    show "length r < length s"
    proof (cases "d = 0x2C")
      case True
      from a v l ds True obtain ws where "parse_elements (skip_ws ds) = Some (ws, r)"
        by (subst (asm) parse_elements.simps) (auto split: option.splits)
      with 2(2) [OF v refl l ds True] have "length r < length (skip_ws ds)" by blast
      then show ?thesis
        using length_skip_ws [of ds] skip_ws_Cons_length [OF ds] l by simp
    next
      case False
      with a v l ds have "r = ds"
        by (subst (asm) parse_elements.simps) (auto split: if_splits)
      then show ?thesis using skip_ws_Cons_length [OF ds] l by simp
    qed
  qed
next
  case (3 s)
  show ?case
  proof (intro allI impI)
    fix ms r assume a: "parse_members s = Some (ms, r)"
    then obtain cs where s: "s = 0x22 # cs"
      by (subst (asm) parse_members.simps) (auto split: list.splits if_splits)
    from a s obtain k r0 where k: "parse_chars cs = Some (k, r0)"
      by (subst (asm) parse_members.simps) (auto split: option.splits)
    from a s k obtain r1 where r1: "skip_ws r0 = 0x3A # r1"
      by (subst (asm) parse_members.simps) (auto split: list.splits if_splits)
    from a s k r1 obtain v r2 where v: "parse_value (skip_ws r1) = Some (v, r2)"
      and l: "length r2 < length (skip_ws r1)"
      by (subst (asm) parse_members.simps) (auto split: option.splits if_splits)
    from a s k r1 v l obtain d ds where ds: "skip_ws r2 = d # ds"
      by (subst (asm) parse_members.simps) (auto split: list.splits)
    have chain: "length r2 < length s"
      using parse_chars_length [OF k] skip_ws_Cons_length [OF r1] length_skip_ws [of r1] l s
      by simp
    show "length r < length s"
    proof (cases "d = 0x2C")
      case True
      from a s k r1 v l ds True obtain ws where "parse_members (skip_ws ds) = Some (ws, r)"
        by (subst (asm) parse_members.simps) (auto split: option.splits)
      with 3(2) [OF s refl k refl r1 refl v refl l ds True]
      have "length r < length (skip_ws ds)" by blast
      then show ?thesis
        using length_skip_ws [of ds] skip_ws_Cons_length [OF ds] chain by simp
    next
      case False
      with a s k r1 v l ds have "r = ds"
        by (subst (asm) parse_members.simps) (auto split: if_splits)
      then show ?thesis using skip_ws_Cons_length [OF ds] chain by simp
    qed
  qed
qed


lemma parse_elements_unguarded:
  "parse_elements s =
     (case parse_value s of
        None \<Rightarrow> None
      | Some (v, r) \<Rightarrow>
          (case skip_ws r of
             [] \<Rightarrow> None
           | d # ds \<Rightarrow>
               if d = 0x2C then
                 (case parse_elements (skip_ws ds) of
                    None \<Rightarrow> None
                  | Some (vs, r') \<Rightarrow> Some (v # vs, r'))
               else if d = 0x5D then Some ([v], ds)
               else None))"
  using parse_consumes(1) [of s]
  by (subst parse_elements.simps) (simp split: option.splits)

lemma parse_members_unguarded:
  "parse_members s =
     (case s of
        [] \<Rightarrow> None
      | q # cs \<Rightarrow>
          if q = 0x22 then
            (case parse_chars cs of
               None \<Rightarrow> None
             | Some (k, r) \<Rightarrow>
                 (case skip_ws r of
                    [] \<Rightarrow> None
                  | p # r1 \<Rightarrow>
                      if p = 0x3A then
                        (case parse_value (skip_ws r1) of
                           None \<Rightarrow> None
                         | Some (v, r2) \<Rightarrow>
                             (case skip_ws r2 of
                                [] \<Rightarrow> None
                              | d # ds \<Rightarrow>
                                  if d = 0x2C then
                                    (case parse_members (skip_ws ds) of
                                       None \<Rightarrow> None
                                     | Some (ms, r') \<Rightarrow> Some ((k, v) # ms, r'))
                                  else if d = 0x7D then Some ([(k, v)], ds)
                                  else None))
                      else None))
          else None)"
proof -
  have "length r2 < length (skip_ws r1)" if "parse_value (skip_ws r1) = Some (v, r2)" for r1 v r2
    using parse_consumes(1) [of "skip_ws r1"] that by blast
  then show ?thesis
    by (subst parse_members.simps) (simp split: list.splits option.splits)
qed

section \<open>Reading back what \<^verbatim>\<open>JSON.stringify\<close> writes\<close>

subsection \<open>String literals\<close>

lemma upt_16: "[0..<16] = [0, 1, 2, 3, 4, 5, 6, 7, 8, 9, 10, 11, 12, 13, 14, 15::nat]"
  by (simp add: upt_rec)

lemma hex_value_hex_digit_all: "\<forall>d \<in> set [0..<16]. hex_value (hex_digit d) = Some d"
  unfolding upt_16 by (simp add: hex_value_def hex_digit_def)

lemma hex_value_hex_digit: "d < 16 \<Longrightarrow> hex_value (hex_digit d) = Some d"
  using hex_value_hex_digit_all by simp

lemma hex_recompose:
  "((n div 4096 * 16 + n div 256 mod 16) * 16 + n div 16 mod 16) * 16 + n mod 16 = (n::nat)"
proof -
  have a: "n div 256 = n div 16 div 16" by (simp add: div_mult2_eq)
  have b: "n div 4096 = n div 16 div 16 div 16" by (simp add: div_mult2_eq)
  show ?thesis unfolding a b by simp
qed

lemma hex4_unicode_escape:
  "hex4 (hex_digit (unat c div 4096)) (hex_digit (unat c div 256 mod 16))
        (hex_digit (unat c div 16 mod 16)) (hex_digit (unat c mod 16)) = Some c"
proof -
  have "unat c < 65536" using unsigned_less [of c] by simp
  then have a: "unat c div 4096 < 16" by simp
  have b: "unat c div 256 mod 16 < 16" "unat c div 16 mod 16 < 16" "unat c mod 16 < 16"
    by simp_all
  have "hex4 (hex_digit (unat c div 4096)) (hex_digit (unat c div 256 mod 16))
        (hex_digit (unat c div 16 mod 16)) (hex_digit (unat c mod 16)) =
        Some (of_nat (((unat c div 4096 * 16 + unat c div 256 mod 16) * 16 + unat c div 16 mod 16) * 16
                 + unat c mod 16))"
    unfolding hex4_def by (simp only: hex_value_hex_digit [OF a] hex_value_hex_digit [OF b(1)]
        hex_value_hex_digit [OF b(2)] hex_value_hex_digit [OF b(3)] prod.case option.case)
  then show ?thesis
    by (simp only: hex_recompose) simp
qed

lemma parse_chars_unicode_escape:
  "parse_chars (unicode_escape c @ s) = cons_char c (parse_chars s)"
  by (simp add: unicode_escape_def hex4_unicode_escape)

lemma parse_chars_end: "parse_chars (0x22 # s) = Some ([], s)"
  by simp

lemma parse_chars_short:
  "unescape e = Some u \<Longrightarrow> e \<noteq> 0x75 \<Longrightarrow> parse_chars (0x5C # e # s) = cons_char u (parse_chars s)"
  by simp

lemma parse_chars_plain:
  "c \<noteq> 0x22 \<Longrightarrow> c \<noteq> 0x5C \<Longrightarrow> \<not> c < 0x20 \<Longrightarrow> parse_chars (c # s) = cons_char c (parse_chars s)"
  by simp

lemma surrogate_plain:
  assumes "is_high_surrogate c \<or> is_low_surrogate c"
  shows "c \<noteq> 0x08" "c \<noteq> 0x09" "c \<noteq> 0x0A" "c \<noteq> 0x0C" "c \<noteq> 0x0D" "c \<noteq> 0x22" "c \<noteq> 0x5C"
    "\<not> c < 0x20"
  using assms by (auto simp: is_high_surrogate_def is_low_surrogate_def word_le_nat_alt word_less_nat_alt)

lemma parse_chars_quote_units:
  "parse_chars (quote_units s @ 0x22 # rest) = Some (s, rest)"
proof (induction "length s" arbitrary: s rule: less_induct)
  case less
  show ?case
  proof (cases s)
    case Nil
    then show ?thesis by simp
  next
    case (Cons c cs)
    have IH: "parse_chars (quote_units cs @ 0x22 # rest) = Some (cs, rest)"
      using less Cons by simp
    show ?thesis
    proof (cases "c = 0x08 \<or> c = 0x09 \<or> c = 0x0A \<or> c = 0x0C \<or> c = 0x0D \<or> c = 0x22 \<or> c = 0x5C")
      case True
      then show ?thesis
        using IH by (elim disjE) (simp_all add: Cons cons_char_def unescape_def)
    next
      case ns: False
      show ?thesis
      proof (cases "c < 0x20")
        case True
        with ns have "quote_units (c # cs) = unicode_escape c @ quote_units cs" by simp
        then show ?thesis
          using IH by (simp add: Cons parse_chars_unicode_escape cons_char_def del: parse_chars.simps)
      next
        case nc: False
        from ns nc have plain: "parse_chars (c # t) = cons_char c (parse_chars t)" for t
          by (intro parse_chars_plain) simp_all
        show ?thesis
        proof (cases "is_high_surrogate c")
          case hi: True
          show ?thesis
          proof (cases cs)
            case Nil
            with ns nc hi have "quote_units (c # cs) = unicode_escape c" by simp
            then show ?thesis
              using Nil by (simp add: Cons parse_chars_unicode_escape parse_chars_end cons_char_def
                  del: parse_chars.simps)
          next
            case cs: (Cons d ds)
            show ?thesis
            proof (cases "is_low_surrogate d")
              case lo: True
              have IH2: "parse_chars (quote_units ds @ 0x22 # rest) = Some (ds, rest)"
                using less Cons cs by simp
              from lo have "parse_chars (d # t) = cons_char d (parse_chars t)" for t
                using surrogate_plain [of d] by (intro parse_chars_plain) simp_all
              moreover from ns nc hi lo cs have "quote_units (c # cs) = c # d # quote_units ds"
                by simp
              ultimately show ?thesis
                using IH2 by (simp add: Cons cs plain cons_char_def del: parse_chars.simps)
            next
              case False
              with ns nc hi cs have "quote_units (c # cs) = unicode_escape c @ quote_units cs"
                by simp
              then show ?thesis
                using IH by (simp add: Cons parse_chars_unicode_escape cons_char_def
                    del: parse_chars.simps)
            qed
          qed
        next
          case nhi: False
          show ?thesis
          proof (cases "is_low_surrogate c")
            case True
            with ns nc nhi have "quote_units (c # cs) = unicode_escape c @ quote_units cs"
              by simp
            then show ?thesis
              using IH by (simp add: Cons parse_chars_unicode_escape cons_char_def
                  del: parse_chars.simps)
          next
            case False
            with ns nc nhi have "quote_units (c # cs) = c # quote_units cs"
              by simp
            then show ?thesis
              using IH by (simp add: Cons plain cons_char_def del: parse_chars.simps)
          qed
        qed
      qed
    qed
  qed
qed

subsection \<open>Number literals\<close>

lemma digits_value_snoc: "digits_value (ds @ [c]) = digits_value ds * 10 + digit_value c"
  by (simp add: digits_value_def)

lemma digit_char_props: "d < 10 \<Longrightarrow> is_digit (digit_char d) \<and> digit_value (digit_char d) = d
    \<and> (digit_char d = 0x30 \<longleftrightarrow> d = 0)"
proof -
  have "\<forall>d \<in> set [0..<10]. is_digit (digit_char d) \<and> digit_value (digit_char d) = d
    \<and> (digit_char d = 0x30 \<longleftrightarrow> d = 0)"
    by (simp add: upt_rec is_digit_def digit_char_def digit_value_def)
  then show "d < 10 \<Longrightarrow> ?thesis" by simp
qed

lemma digits_all_digit: "\<forall>c \<in> set (digits n). is_digit c"
proof (induction n rule: digits.induct)
  case (1 n)
  show ?case
  proof (cases "n < 10")
    case True
    then show ?thesis by (subst digits.simps) (simp add: digit_char_props)
  next
    case False
    with 1 show ?thesis by (subst digits.simps) (simp add: digit_char_props)
  qed
qed

lemma digits_value_digits: "digits_value (digits n) = n"
proof (induction n rule: digits.induct)
  case (1 n)
  show ?case
  proof (cases "n < 10")
    case True
    then show ?thesis
      by (subst digits.simps) (simp add: digit_char_props digits_value_def)
  next
    case False
    with 1 show ?thesis
      by (subst digits.simps) (simp add: digit_char_props digits_value_snoc)
  qed
qed

lemma digits_head: "\<exists>c t. digits n = c # t \<and> is_digit c \<and> (c = 0x30 \<longrightarrow> n = 0 \<and> t = [])"
proof (induction n rule: digits.induct)
  case (1 n)
  show ?case
  proof (cases "n < 10")
    case True
    then show ?thesis by (subst digits.simps) (simp add: digit_char_props)
  next
    case False
    then have "n div 10 \<noteq> 0" by simp
    with False 1 show ?thesis by (subst digits.simps) auto
  qed
qed

lemma takeWhile_digits:
  "number_end r \<Longrightarrow> takeWhile is_digit (digits n @ r) = digits n \<and> dropWhile is_digit (digits n @ r) = r"
  using digits_all_digit [of n]
  by (cases r) (simp_all add: number_end_def)

lemma parse_int_part_digits:
  assumes "number_end r"
  shows "parse_int_part (digits n @ r) = Some (digits n, r)"
proof -
  obtain c t where d: "digits n = c # t" and c: "is_digit c" and z: "c = 0x30 \<longrightarrow> n = 0 \<and> t = []"
    using digits_head [of n] by blast
  show ?thesis
  proof (cases "c = 0x30")
    case True
    with z d show ?thesis by (simp add: parse_int_part_def)
  next
    case False
    have "parse_int_part (digits n @ r) =
        Some (takeWhile is_digit (digits n @ r), dropWhile is_digit (digits n @ r))"
      unfolding d using False c by (simp add: parse_int_part_def)
    then show ?thesis using takeWhile_digits [OF assms, of n] by simp
  qed
qed

lemma parse_unsigned:
  assumes "number_end r"
  shows "(case parse_int_part (digits n @ r) of None \<Rightarrow> None | Some (ip, s2) \<Rightarrow>
            (case parse_frac s2 of None \<Rightarrow> None | Some (fp, s3) \<Rightarrow>
               (case parse_exp s3 of None \<Rightarrow> None | Some (e, s4) \<Rightarrow>
                  Some (k * of_nat (digits_value (ip @ fp)) * power10 (e - int (length fp)), s4))))
         = Some (k * of_nat n, r)"
proof -
  have f: "parse_frac r = Some ([], r)" using assms
    by (cases r) (simp_all add: parse_frac_def number_end_def)
  have e: "parse_exp r = Some (0, r)" using assms
    by (cases r) (simp_all add: parse_exp_def number_end_def)
  show ?thesis
    by (simp add: parse_int_part_digits [OF assms] f e digits_value_digits power10_def)
qed

lemma parse_number_to_string:
  assumes "number_end r"
  shows "parse_number (number_to_string i @ r) = Some (of_int i, r)"
proof (cases "i < 0")
  case True
  then have "parse_sign (number_to_string i @ r) = (True, digits (nat (- i)) @ r)"
    by (simp add: parse_sign_def number_to_string_def)
  then show ?thesis
    using parse_unsigned [OF assms, of "- 1" "nat (- i)"] True
    by (simp add: parse_number_def)
next
  case False
  obtain c t where d: "digits (nat i) = c # t" and c: "is_digit c"
    using digits_head [of "nat i"] by blast
  from c have "c \<noteq> 0x2D" by (auto simp: is_digit_def)
  with False d have "parse_sign (number_to_string i @ r) = (False, digits (nat i) @ r)"
    by (simp add: parse_sign_def number_to_string_def)
  then show ?thesis
    using parse_unsigned [OF assms, of 1 "nat i"] False
    by (simp add: parse_number_def)
qed

lemma number_to_string_head:
  "\<exists>c t. number_to_string i = c # t \<and> (is_digit c \<or> c = 0x2D)"
  using digits_head [of "nat i"] digits_head [of "nat (- i)"]
  by (auto simp: number_to_string_def)

lemma digit_or_minus:
  assumes "is_digit c \<or> c = 0x2D"
  shows "c \<noteq> 0x22" "c \<noteq> 0x5B" "c \<noteq> 0x7B" "c \<noteq> 0x74" "c \<noteq> 0x66" "c \<noteq> 0x6E" "\<not> is_json_ws c"
  using assms by (auto simp: is_digit_def is_json_ws_def word_le_nat_alt)

lemma parse_value_number:
  assumes "number_end r"
  shows "parse_value (number_to_string i @ r) = Some (JNumber (of_int i), r)"
proof -
  obtain c t where d: "number_to_string i = c # t" and c: "is_digit c \<or> c = 0x2D"
    using number_to_string_head [of i] by blast
  have "parse_value (c # t @ r) = parse_scalar (c # t @ r)"
    using digit_or_minus [OF c] by (simp add: parse_value.simps)
  also have "\<dots> = (case parse_number (c # t @ r) of None \<Rightarrow> None | Some (x, r) \<Rightarrow> Some (JNumber x, r))"
    using digit_or_minus [OF c] by (simp add: parse_scalar_def js_def)
  finally show ?thesis
    using parse_number_to_string [OF assms, of i] by (simp add: d)
qed

lemma skip_ws_number: "skip_ws (number_to_string i @ r) = number_to_string i @ r"
proof -
  obtain c t where d: "number_to_string i = c # t" and c: "is_digit c \<or> c = 0x2D"
    using number_to_string_head [of i] by blast
  show ?thesis using digit_or_minus [OF c] by (simp add: d skip_ws_def)
qed

lemma parse_value_string:
  "parse_value (QuoteJSONString s @ r) = Some (JString s, r)"
  by (simp add: parse_value.simps parse_scalar_def QuoteJSONString_def parse_chars_quote_units
      del: parse_chars.simps)

lemma parse_value_true: "parse_value (js ''true'' @ r) = Some (JBool True, r)"
  by (simp add: parse_value.simps parse_scalar_def js_def)

lemma parse_value_false: "parse_value (js ''false'' @ r) = Some (JBool False, r)"
  by (simp add: parse_value.simps parse_scalar_def js_def)

subsection \<open>Tasks and task arrays\<close>

lemma tarefa_de_json_tarefa_json: "tarefa_de_json (tarefa_json t) = Some t"
  by (simp add: tarefa_de_json_def tarefa_json_def inteiro_def)

lemma tarefas_de_json_map: "tarefas_de_json (JArray (map tarefa_json ts)) = Some ts"
  by (induction ts) (simp_all add: tarefas_de_json_def tarefa_de_json_tarefa_json)

lemma skip_ws_quote: "skip_ws (0x22 # s) = 0x22 # s" "skip_ws (0x3A # s) = 0x3A # s"
  "skip_ws (0x2C # s) = 0x2C # s" "skip_ws (0x7D # s) = 0x7D # s" "skip_ws (0x5D # s) = 0x5D # s"
  "skip_ws (0x7B # s) = 0x7B # s"
  by (simp_all add: skip_ws_def is_json_ws_def)

lemma skip_ws_boolean: "skip_ws (boolean_to_string b @ s) = boolean_to_string b @ s"
  by (simp add: skip_ws_def is_json_ws_def boolean_to_string_def js_def)

lemma parse_value_boolean: "parse_value (boolean_to_string b @ r) = Some (JBool b, r)"
  by (simp add: boolean_to_string_def parse_value_true parse_value_false)

lemma parse_members_step:
  assumes "parse_value (skip_ws r1) = Some (v, d # ds)" "length (d # ds) < length (skip_ws r1)"
    "\<not> is_json_ws d"
  shows "parse_members (QuoteJSONString k @ 0x3A # r1) =
     (if d = 0x2C then
        (case parse_members (skip_ws ds) of None \<Rightarrow> None | Some (ms, r') \<Rightarrow> Some ((k, v) # ms, r'))
      else if d = 0x7D then Some ([(k, v)], ds) else None)"
proof -
  have "skip_ws (d # ds) = d # ds" using assms(3) by (simp add: skip_ws_def)
  then show ?thesis
    using assms(1,2)
    by (subst parse_members.simps)
       (simp add: QuoteJSONString_def parse_chars_quote_units skip_ws_quote del: parse_chars.simps)
qed

lemma parse_members_member:
  assumes ws: "skip_ws (vt @ d # ds) = vt @ d # ds"
    and pv: "parse_value (vt @ d # ds) = Some (v, d # ds)"
    and ne: "vt \<noteq> []"
    and d: "d = 0x2C \<or> d = 0x7D"
  shows "parse_members (serialize_member k vt @ d # ds) =
     (if d = 0x2C then
        (case parse_members (skip_ws ds) of None \<Rightarrow> None | Some (ms, r') \<Rightarrow> Some ((js k, v) # ms, r'))
      else Some ([(js k, v)], ds))"
proof -
  have a: "parse_value (skip_ws (vt @ d # ds)) = Some (v, d # ds)"
    using ws pv by simp
  have b: "length (d # ds) < length (skip_ws (vt @ d # ds))"
    using ws ne by simp
  have c: "\<not> is_json_ws d"
    using d by (auto simp: is_json_ws_def)
  have "serialize_member k vt @ d # ds = QuoteJSONString (js k) @ 0x3A # vt @ d # ds"
    by (simp add: serialize_member_def)
  then show ?thesis
    using parse_members_step [OF a b c, of "js k"] d by auto
qed

lemma number_end_comma: "number_end (0x2C # s)"
  by (simp add: number_end_def is_digit_def)

lemma number_to_string_nonempty: "number_to_string i \<noteq> []"
  using number_to_string_head [of i] by auto

lemma boolean_to_string_nonempty: "boolean_to_string b \<noteq> []"
  by (simp add: boolean_to_string_def js_def)

lemma QuoteJSONString_nonempty: "QuoteJSONString s \<noteq> []"
  by (simp add: QuoteJSONString_def)

lemma skip_ws_QuoteJSONString: "skip_ws (QuoteJSONString s @ r) = QuoteJSONString s @ r"
  by (simp add: QuoteJSONString_def skip_ws_quote)

lemma skip_ws_member: "skip_ws (serialize_member k v @ r) = serialize_member k v @ r"
  by (simp add: serialize_member_def skip_ws_QuoteJSONString)

lemma parse_members_tarefa:
  "parse_members (serialize_member ''id'' (number_to_string (id' t)) @
     0x2C # serialize_member ''titulo'' (QuoteJSONString (titulo t)) @
     0x2C # serialize_member ''concluida'' (boolean_to_string (concluida t)) @ 0x7D # r)
   = Some ([(js ''id'', JNumber (of_int (id' t))), (js ''titulo'', JString (titulo t)),
            (js ''concluida'', JBool (concluida t))], r)"
proof -
  let ?m3 = "serialize_member ''concluida'' (boolean_to_string (concluida t)) @ 0x7D # r"
  let ?m2 = "serialize_member ''titulo'' (QuoteJSONString (titulo t)) @ 0x2C # ?m3"
  have 3: "parse_members ?m3 = Some ([(js ''concluida'', JBool (concluida t))], r)"
    by (subst parse_members_member [where v = "JBool (concluida t)"])
       (simp_all add: skip_ws_boolean parse_value_boolean boolean_to_string_nonempty)
  have 2: "parse_members ?m2 = Some ([(js ''titulo'', JString (titulo t)),
            (js ''concluida'', JBool (concluida t))], r)"
    by (subst parse_members_member [where v = "JString (titulo t)"])
       (simp_all add: skip_ws_QuoteJSONString parse_value_string QuoteJSONString_nonempty
          skip_ws_member 3)
  show ?thesis
    by (subst parse_members_member [where v = "JNumber (of_int (id' t))"])
       (simp_all add: skip_ws_number parse_value_number number_end_comma number_to_string_nonempty
          skip_ws_member 2)
qed

lemma parse_value_object:
  "skip_ws m = 0x22 # x \<Longrightarrow>
     parse_value (0x7B # m) =
       (case parse_members (0x22 # x) of None \<Rightarrow> None | Some (ms, r) \<Rightarrow> Some (JObject ms, r))"
  by (subst parse_value.simps) simp

lemma parse_value_tarefa:
  "parse_value (stringify_tarefa t @ r) = Some (tarefa_json t, r)"
proof -
  let ?m = "serialize_member ''id'' (number_to_string (id' t)) @
     0x2C # serialize_member ''titulo'' (QuoteJSONString (titulo t)) @
     0x2C # serialize_member ''concluida'' (boolean_to_string (concluida t)) @ 0x7D # r"
  have s: "stringify_tarefa t @ r = 0x7B # ?m"
    by (simp add: stringify_tarefa_def)
  have "?m = 0x22 # tl ?m"
    by (simp add: serialize_member_def QuoteJSONString_def)
  then have "skip_ws ?m = 0x22 # tl ?m"
    using skip_ws_member [of "''id''" "number_to_string (id' t)"] by simp
  then have "parse_value (0x7B # ?m) =
      (case parse_members (0x22 # tl ?m) of None \<Rightarrow> None | Some (ms, r) \<Rightarrow> Some (JObject ms, r))"
    by (rule parse_value_object)
  also have "0x22 # tl ?m = ?m"
    by (simp add: serialize_member_def QuoteJSONString_def)
  finally show ?thesis
    unfolding s by (simp add: parse_members_tarefa tarefa_json_def)
qed

lemma stringify_tarefa_nonempty: "stringify_tarefa t \<noteq> []"
  by (simp add: stringify_tarefa_def)

lemma skip_ws_stringify_tarefa: "skip_ws (stringify_tarefa t @ r) = stringify_tarefa t @ r"
  by (simp add: stringify_tarefa_def skip_ws_quote)

lemma skip_ws_join_comma:
  "skip_ws (join_comma (map stringify_tarefa (t # ts)) @ r) =
     join_comma (map stringify_tarefa (t # ts)) @ r"
  by (cases ts) (simp_all add: skip_ws_stringify_tarefa)

lemma parse_elements_step:
  assumes "parse_value s = Some (v, d # ds)" "length (d # ds) < length s" "\<not> is_json_ws d"
  shows "parse_elements s =
     (if d = 0x2C then
        (case parse_elements (skip_ws ds) of None \<Rightarrow> None | Some (vs, r') \<Rightarrow> Some (v # vs, r'))
      else if d = 0x5D then Some ([v], ds) else None)"
proof -
  have "skip_ws (d # ds) = d # ds" using assms(3) by (simp add: skip_ws_def)
  then show ?thesis
    using assms(1,2) by (subst parse_elements.simps) simp
qed

lemma parse_elements_tarefas:
  "parse_elements (join_comma (map stringify_tarefa (t # ts)) @ 0x5D # r) =
     Some (map tarefa_json (t # ts), r)"
proof (induction ts arbitrary: t)
  case Nil
  have "parse_elements (stringify_tarefa t @ 0x5D # r) = Some ([tarefa_json t], r)"
    by (subst parse_elements_step [where v = "tarefa_json t" and d = "0x5D" and ds = r])
       (simp_all add: parse_value_tarefa stringify_tarefa_nonempty is_json_ws_def)
  then show ?case by simp
next
  case (Cons u us)
  let ?rest = "join_comma (map stringify_tarefa (u # us)) @ 0x5D # r"
  have "parse_elements (stringify_tarefa t @ 0x2C # ?rest) =
      Some (tarefa_json t # map tarefa_json (u # us), r)"
    by (subst parse_elements_step [where v = "tarefa_json t" and d = "0x2C" and ds = ?rest])
       (simp_all only: parse_value_tarefa skip_ws_join_comma Cons, 
        simp_all add: stringify_tarefa_nonempty is_json_ws_def)
  then show ?case by simp
qed

lemma parse_value_array:
  "skip_ws m = d # ds \<Longrightarrow> d \<noteq> 0x5D \<Longrightarrow>
     parse_value (0x5B # m) =
       (case parse_elements (d # ds) of None \<Rightarrow> None | Some (vs, r) \<Rightarrow> Some (JArray vs, r))"
  by (subst parse_value.simps) simp

lemma parse_value_JSON_stringify:
  "parse_value (JSON_stringify ts @ r) = Some (JArray (map tarefa_json ts), r)"
proof (cases ts)
  case Nil
  then show ?thesis
    by (subst parse_value.simps) (simp add: JSON_stringify_def skip_ws_quote)
next
  case (Cons t us)
  let ?m = "join_comma (map stringify_tarefa (t # us)) @ 0x5D # r"
  have "?m = 0x7B # tl ?m"
    by (cases us) (simp_all add: stringify_tarefa_def)
  then have "skip_ws ?m = 0x7B # tl ?m"
    using skip_ws_join_comma [of t us "0x5D # r"] by simp
  then have "parse_value (0x5B # ?m) =
      (case parse_elements (0x7B # tl ?m) of None \<Rightarrow> None | Some (vs, r) \<Rightarrow> Some (JArray vs, r))"
    by (rule parse_value_array) simp
  also have "0x7B # tl ?m = ?m"
    by (cases us) (simp_all add: stringify_tarefa_def)
  finally show ?thesis
    by (simp add: JSON_stringify_def Cons parse_elements_tarefas del: join_comma.simps list.map)
qed

lemma JSON_parse_JSON_stringify:
  "JSON_parse (JSON_stringify ts) = Inr (JArray (map tarefa_json ts))"
proof -
  have "skip_ws (JSON_stringify ts) = JSON_stringify ts"
    by (simp add: JSON_stringify_def skip_ws_quote skip_ws_def is_json_ws_def)
  then show ?thesis
    using parse_value_JSON_stringify [of ts "[]"]
    by (simp add: JSON_parse_def skip_ws_def)
qed

section \<open>Evaluation on concrete inputs\<close>

lemma js_literals:
  "js ''ativas'' \<noteq> js ''concluidas''" "js ''todas'' \<noteq> js ''ativas''"
  "js ''todas'' \<noteq> js ''concluidas''" "js ''concluidas'' \<noteq> js ''ativas''"
  "js ''ativas'' \<noteq> js ''todas''" "js ''concluidas'' \<noteq> js ''todas''"
  by (simp_all add: js_def)

lemmas trim_eval = trim_def trimStart_def trimEnd_def is_white_space_def truthy_def js_def

lemma digits_small: "n < 10 \<Longrightarrow> digits n = [digit_char n]"
  by (subst digits.simps) simp

lemma digits_large: "\<not> n < 10 \<Longrightarrow> digits n = digits (n div 10) @ [digit_char (n mod 10)]"
  by (subst digits.simps) simp

lemmas stringify_eval = JSON_stringify_def stringify_tarefa_def serialize_member_def
  QuoteJSONString_def number_to_string_def boolean_to_string_def digits_small digits_large
  digit_char_def is_high_surrogate_def is_low_surrogate_def unicode_escape_def hex_digit_def js_def

lemmas parse_eval = JSON_parse_def parse_value.simps parse_elements.simps parse_members.simps
  parse_scalar_def parse_number_def parse_sign_def parse_int_part_def parse_frac_def parse_exp_def
  parse_exp_sign_def skip_ws_def is_json_ws_def is_digit_def digits_value_def digit_value_def
  power10_def cons_char_def hex4_def hex_value_def unescape_def js_def

lemma JSON_parse_empty_array: "JSON_parse (js ''[]'') = Inr (JArray [])"
  by (simp add: parse_eval)

section \<open>Properties of \<^verbatim>\<open>removerTarefa\<close> and of runs\<close>

lemma first_match:
  assumes "i \<in> id' ` set ts"
  obtains pre t post where "ts = pre @ t # post" "id' t = i" "i \<notin> id' ` set pre"
proof -
  from assms have "\<exists>t \<in> set ts. id' t = i" by auto
  then obtain pre t post where a: "ts = pre @ t # post" and b: "id' t = i"
    and c: "\<forall>y \<in> set pre. \<not> id' y = i"
    using first_match_split [of ts "\<lambda>t. id' t = i"] by blast
  from c have "i \<notin> id' ` set pre" by auto
  with a b show ?thesis by (rule that)
qed

lemma removerTarefa_cases:
  "tarefas (removerTarefa i st) = tarefas st \<or>
   (\<exists>pre t post. tarefas st = pre @ t # post \<and> id' t = i \<and> i \<notin> id' ` set pre \<and>
      tarefas (removerTarefa i st) = pre @ post)"
proof (cases "i \<in> id' ` set (tarefas st)")
  case False
  then show ?thesis by (simp add: removerTarefa_absent)
next
  case True
  then obtain pre t post where ts: "tarefas st = pre @ t # post" and t: "id' t = i"
    and pre: "i \<notin> id' ` set pre"
    by (rule first_match)
  then have "tarefas (removerTarefa i st) = pre @ post"
    by (simp add: removerTarefa_first)
  with ts t pre show ?thesis by blast
qed

lemma adicionar_varias_ids:
  "map id' (tarefas (adicionar_varias cs st)) = map id' (tarefas st) @ relogios cs"
  by (induction cs st rule: adicionar_varias.induct)
     (auto simp: relogios_def adicionarTarefa_def push_def)

lemma adicionar_varias_tarefas:
  "tarefas (adicionar_varias cs st) =
     tarefas st @ map (\<lambda>(agora, t). \<lparr>id' = agora, titulo = t, concluida = False\<rparr>)
                      (filter (\<lambda>(agora, t). truthy (trim t)) cs)"
  by (induction cs st rule: adicionar_varias.induct)
     (auto simp: adicionarTarefa_def push_def)

lemma changed_is_pending:
  "tarefas (executar e st) \<noteq> tarefas st \<Longrightarrow> watch_pendente (executar e st)"
  by (cases e)
     (auto simp: adicionarTarefa_def push_def removerTarefa_def definir_concluida_def
        definir_filtro_def Let_def split: if_splits)

section \<open>The claims\<close>

subsection \<open>C1: the guard of \<^verbatim>\<open>adicionarTarefa\<close> and the stored title\<close>

text \<open>
  C1 as stated says that the stored title is the trimmed text. The source trims only in
  the condition and stores the text as it was typed: after adding the text of a space
  and the letter a to an empty array, the title of the new task is that text with its
  space, and it differs from its trimmed form.
\<close>

theorem adicionarTarefa_title_untrimmed:
  "titulo (last (tarefas (adicionarTarefa 1 (js '' a'') vazio))) = js '' a''
   \<and> trim (js '' a'') = js ''a''
   \<and> titulo (last (tarefas (adicionarTarefa 1 (js '' a'') vazio))) \<noteq> trim (js '' a'')"
  by (simp add: adicionarTarefa_def push_def trim_eval)

text \<open>
  C1, amended: for every text \<open>t\<close>, \<^verbatim>\<open>adicionarTarefa(t)\<close> appends a task exactly when
  \<open>trim t\<close> is not empty; the appended task has the clock reading as id, the text \<open>t\<close>
  itself (not trimmed) as title and is not completed; when \<open>trim t\<close> is empty the call
  leaves the whole state as it was, so no task is appended and the watcher that writes to
  the store is not triggered.
\<close>

theorem adicionarTarefa_guard:
  "(length (tarefas (adicionarTarefa agora t st)) = length (tarefas st) + 1 \<longleftrightarrow> trim t \<noteq> [])
   \<and> (trim t \<noteq> [] \<longrightarrow>
        tarefas (adicionarTarefa agora t st) =
          tarefas st @ [\<lparr>id' = agora, titulo = t, concluida = False\<rparr>])
   \<and> (trim t = [] \<longrightarrow> adicionarTarefa agora t st = st)"
  by (simp add: adicionarTarefa_def truthy_def push_def)

text \<open>
  C1, the amended statement at two inputs: a text with a leading space is appended as it
  is, a text of two spaces changes nothing.
\<close>

theorem adicionarTarefa_guard_witness:
  "trim (js '' a'') \<noteq> []
   \<and> tarefas (adicionarTarefa 1 (js '' a'') vazio) = [\<lparr>id' = 1, titulo = js '' a'', concluida = False\<rparr>]
   \<and> trim (js ''  '') = []
   \<and> adicionarTarefa 2 (js ''  '') vazio = vazio"
  using adicionarTarefa_guard [of 1 "js '' a''" vazio] adicionarTarefa_guard [of 2 "js ''  ''" vazio]
  by (simp add: trim_eval)

subsection \<open>C2: initialisation from the store\<close>

text \<open>
  C2 as stated says that malformed data in the store is treated like absent data. The
  source calls \<^verbatim>\<open>JSON.parse\<close> with no handler around it: with the text of a single
  opening brace under the key, \<^verbatim>\<open>useTarefas\<close> ends with the SyntaxError.
\<close>

theorem useTarefas_malformed_throws:
  "useTarefas [js ''tarefas'' \<mapsto> js ''{''] = Inl SyntaxError"
  by (simp add: useTarefas_def getItem_def truthy_def parse_eval)

text \<open>
  C2, amended: when the store has no value under the key \<^verbatim>\<open>'tarefas'\<close>, or the empty
  string, \<^verbatim>\<open>useTarefas\<close> starts with the empty array, the filter \<^verbatim>\<open>'todas'\<close>, and no
  error; when the store holds a non-empty text that \<^verbatim>\<open>JSON.parse\<close> rejects, the
  exception of \<^verbatim>\<open>JSON.parse\<close> reaches the caller of \<^verbatim>\<open>useTarefas\<close>.
\<close>

theorem useTarefas_absent_or_malformed:
  "(ls (js ''tarefas'') = None \<or> ls (js ''tarefas'') = Some [] \<longrightarrow>
      useTarefas ls = Inr (Pronto \<lparr>tarefas = [], filtro = js ''todas'', localStorage = ls,
                                   watch_pendente = False\<rparr>))
   \<and> (ls (js ''tarefas'') = Some v \<and> v \<noteq> [] \<and> JSON_parse v = Inl e \<longrightarrow> useTarefas ls = Inl e)"
  by (auto simp: useTarefas_def getItem_def truthy_def JSON_parse_empty_array tarefas_de_json_def)

text \<open>C2, the amended statement on the empty store and on a store with malformed text.\<close>

theorem useTarefas_absent_or_malformed_witness:
  "useTarefas Map.empty = Inr (Pronto vazio)
   \<and> JSON_parse (js ''{'') = Inl SyntaxError
   \<and> useTarefas [js ''tarefas'' \<mapsto> js ''{''] = Inl SyntaxError"
  using useTarefas_absent_or_malformed [of Map.empty "js ''{''" SyntaxError]
    useTarefas_absent_or_malformed [of "[js ''tarefas'' \<mapsto> js ''{'']" "js ''{''" SyntaxError]
  by (simp add: parse_eval)

subsection \<open>C3: the ids of the tasks\<close>

text \<open>
  C3 as stated says that ids are unique. The id is the reading of the clock in
  milliseconds: two calls within the same millisecond give two tasks with the same id.
\<close>

theorem ids_clash_within_a_millisecond:
  "map id' (tarefas (adicionarTarefa 5 (js ''b'') (adicionarTarefa 5 (js ''a'') vazio))) = [5, 5]
   \<and> \<not> distinct (map id' (tarefas (adicionarTarefa 5 (js ''b'') (adicionarTarefa 5 (js ''a'') vazio))))"
  by (simp add: adicionarTarefa_def push_def trim_eval)

text \<open>
  C3, amended: in every run of calls of \<^verbatim>\<open>adicionarTarefa\<close>, whatever the clock
  reads, the tasks held after the run are the tasks held before followed by one task for
  each call that appends, in the order of the calls, with the clock reading of its call
  as id; so the ids are the ids held before followed by those readings, and they are
  unique exactly when those ids and readings are. When those ids and readings are
  strictly increasing, the ids of the tasks held after the run are strictly increasing
  in creation order and unique.
\<close>

theorem ids_increasing_with_clock:
  "tarefas (adicionar_varias cs st) =
     tarefas st @ map (\<lambda>(agora, t). \<lparr>id' = agora, titulo = t, concluida = False\<rparr>)
                      (filter (\<lambda>(agora, t). truthy (trim t)) cs)
   \<and> map id' (tarefas (adicionar_varias cs st)) = map id' (tarefas st) @ relogios cs
   \<and> (sorted_wrt (<) (map id' (tarefas st) @ relogios cs) \<longrightarrow>
        sorted_wrt (<) (map id' (tarefas (adicionar_varias cs st)))
        \<and> distinct (map id' (tarefas (adicionar_varias cs st))))
   \<and> (distinct (map id' (tarefas (adicionar_varias cs st))) \<longleftrightarrow>
        distinct (map id' (tarefas st) @ relogios cs))"
proof (intro conjI impI)
  show "tarefas (adicionar_varias cs st) =
     tarefas st @ map (\<lambda>(agora, t). \<lparr>id' = agora, titulo = t, concluida = False\<rparr>)
                      (filter (\<lambda>(agora, t). truthy (trim t)) cs)"
    by (rule adicionar_varias_tarefas)
  show ids: "map id' (tarefas (adicionar_varias cs st)) = map id' (tarefas st) @ relogios cs"
    by (rule adicionar_varias_ids)
  show "distinct (map id' (tarefas (adicionar_varias cs st))) \<longleftrightarrow>
        distinct (map id' (tarefas st) @ relogios cs)"
    by (simp only: ids)
next
  assume "sorted_wrt (<) (map id' (tarefas st) @ relogios cs)"
  then have s: "sorted_wrt (<) (map id' (tarefas (adicionar_varias cs st)))"
    by (simp only: adicionar_varias_ids)
  then show "sorted_wrt (<) (map id' (tarefas (adicionar_varias cs st)))" .
  from s show "distinct (map id' (tarefas (adicionar_varias cs st)))"
    using strict_sorted_iff by blast
qed

text \<open>
  C3, the amended statement on two runs from the empty array: with the readings 1, 2, 3,
  the second call with a blank text, the ids are 1 and 3; with the reading 5 twice, both
  tasks have the id 5.
\<close>

theorem ids_increasing_with_clock_witness:
  "sorted_wrt (<) (map id' (tarefas vazio) @ relogios [(1, js ''a''), (2, js '' ''), (3, js ''b'')])
   \<and> tarefas (adicionar_varias [(1, js ''a''), (2, js '' ''), (3, js ''b'')] vazio) =
       [\<lparr>id' = 1, titulo = js ''a'', concluida = False\<rparr>,
        \<lparr>id' = 3, titulo = js ''b'', concluida = False\<rparr>]
   \<and> sorted_wrt (<) (map id' (tarefas (adicionar_varias [(1, js ''a''), (2, js '' ''), (3, js ''b'')] vazio)))
   \<and> distinct (map id' (tarefas (adicionar_varias [(1, js ''a''), (2, js '' ''), (3, js ''b'')] vazio)))
   \<and> map id' (tarefas (adicionar_varias [(5, js ''a''), (5, js ''b'')] vazio)) = [5, 5]"
  using ids_increasing_with_clock [of "[(1, js ''a''), (2, js '' ''), (3, js ''b'')]" vazio]
    ids_increasing_with_clock [of "[(5, js ''a''), (5, js ''b'')]" vazio]
  by (simp add: relogios_def trim_eval)

subsection \<open>C4: the active and the completed tasks partition the array\<close>

text \<open>
  C4: for every task array, the tasks of \<^verbatim>\<open>tarefasFiltradas\<close> under \<^verbatim>\<open>'ativas'\<close>
  together with those under \<^verbatim>\<open>'concluidas'\<close> are, as sets, the tasks under
  \<^verbatim>\<open>'todas'\<close>, and no task is in both.
\<close>

theorem tarefasFiltradas_partition:
  "set (tarefasFiltradas (definir_filtro (js ''ativas'') st)) \<union>
   set (tarefasFiltradas (definir_filtro (js ''concluidas'') st)) =
   set (tarefasFiltradas (definir_filtro (js ''todas'') st))
   \<and> set (tarefasFiltradas (definir_filtro (js ''ativas'') st)) \<inter>
     set (tarefasFiltradas (definir_filtro (js ''concluidas'') st)) = {}"
  by (auto simp: tarefasFiltradas_def definir_filtro_def js_literals)

text \<open>
  C4 on the array of two tasks A and B after A was marked completed: B alone is active, A
  alone is completed, and both are under \<^verbatim>\<open>'todas'\<close>.
\<close>

theorem tarefasFiltradas_partition_witness:
  "set (tarefasFiltradas (definir_filtro (js ''ativas'')
         (definir_concluida 0 True (adicionarTarefa 2 (js ''B'') (adicionarTarefa 1 (js ''A'') vazio)))))
     = {\<lparr>id' = 2, titulo = js ''B'', concluida = False\<rparr>}
   \<and> set (tarefasFiltradas (definir_filtro (js ''concluidas'')
         (definir_concluida 0 True (adicionarTarefa 2 (js ''B'') (adicionarTarefa 1 (js ''A'') vazio)))))
     = {\<lparr>id' = 1, titulo = js ''A'', concluida = True\<rparr>}
   \<and> set (tarefasFiltradas (definir_filtro (js ''todas'')
         (definir_concluida 0 True (adicionarTarefa 2 (js ''B'') (adicionarTarefa 1 (js ''A'') vazio)))))
     = {\<lparr>id' = 1, titulo = js ''A'', concluida = True\<rparr>, \<lparr>id' = 2, titulo = js ''B'', concluida = False\<rparr>}"
  using tarefasFiltradas_partition [of "definir_concluida 0 True
      (adicionarTarefa 2 (js ''B'') (adicionarTarefa 1 (js ''A'') vazio))"]
  by (auto simp: tarefasFiltradas_def definir_filtro_def definir_concluida_def adicionarTarefa_def
      push_def trim_eval)

subsection \<open>C5: the three views\<close>

text \<open>
  C5: \<^verbatim>\<open>tarefasFiltradas\<close> depends on the task array and the filter only (not on the
  store, nor on the queue of the watcher); under \<^verbatim>\<open>'todas'\<close> it is the whole array in
  its order, under \<^verbatim>\<open>'ativas'\<close> the tasks that are not completed, under
  \<^verbatim>\<open>'concluidas'\<close> the completed ones, each time a subsequence of the array, so the
  order is kept.
\<close>

theorem tarefasFiltradas_views:
  "tarefasFiltradas (definir_filtro (js ''todas'') st) = tarefas st
   \<and> tarefasFiltradas (definir_filtro (js ''ativas'') st) =
       filter (\<lambda>t. concluida t = False) (tarefas st)
   \<and> tarefasFiltradas (definir_filtro (js ''concluidas'') st) =
       filter (\<lambda>t. concluida t = True) (tarefas st)
   \<and> subseq (tarefasFiltradas st) (tarefas st)
   \<and> tarefasFiltradas st =
       tarefasFiltradas \<lparr>tarefas = tarefas st, filtro = filtro st, localStorage = l,
                         watch_pendente = w\<rparr>"
  by (simp add: tarefasFiltradas_def definir_filtro_def js_literals)

text \<open>
  C5 on the same array: the view under \<^verbatim>\<open>'ativas'\<close> is B, under \<^verbatim>\<open>'concluidas'\<close> it
  is A, under \<^verbatim>\<open>'todas'\<close> it is A then B.
\<close>

theorem tarefasFiltradas_views_witness:
  "tarefasFiltradas (definir_filtro (js ''ativas'')
      (definir_concluida 0 True (adicionarTarefa 2 (js ''B'') (adicionarTarefa 1 (js ''A'') vazio))))
     = [\<lparr>id' = 2, titulo = js ''B'', concluida = False\<rparr>]
   \<and> tarefasFiltradas (definir_filtro (js ''concluidas'')
      (definir_concluida 0 True (adicionarTarefa 2 (js ''B'') (adicionarTarefa 1 (js ''A'') vazio))))
     = [\<lparr>id' = 1, titulo = js ''A'', concluida = True\<rparr>]
   \<and> tarefasFiltradas (definir_filtro (js ''todas'')
      (definir_concluida 0 True (adicionarTarefa 2 (js ''B'') (adicionarTarefa 1 (js ''A'') vazio))))
     = [\<lparr>id' = 1, titulo = js ''A'', concluida = True\<rparr>, \<lparr>id' = 2, titulo = js ''B'', concluida = False\<rparr>]"
  using tarefasFiltradas_views [of "definir_concluida 0 True
      (adicionarTarefa 2 (js ''B'') (adicionarTarefa 1 (js ''A'') vazio))"]
  by (simp add: definir_concluida_def adicionarTarefa_def push_def trim_eval)

subsection \<open>C6: removing an id that is absent, or present\<close>

text \<open>
  C6: for every state and every id, when no task has the id \<^verbatim>\<open>removerTarefa(id)\<close>
  leaves the state as it was (the function has no failing branch); when a task has the
  id, the array afterwards is the array before less one task with that id.
\<close>

theorem removerTarefa_absent_or_present:
  "(i \<notin> id' ` set (tarefas st) \<longrightarrow> removerTarefa i st = st) \<and>
   (i \<in> id' ` set (tarefas st) \<longrightarrow>
      (\<exists>t \<in> set (tarefas st). id' t = i \<and>
         mset (tarefas (removerTarefa i st)) = mset (tarefas st) - {#t#}))"
proof (intro conjI impI)
  assume "i \<notin> id' ` set (tarefas st)"
  then show "removerTarefa i st = st" by (rule removerTarefa_absent)
next
  assume "i \<in> id' ` set (tarefas st)"
  then obtain pre t post where ts: "tarefas st = pre @ t # post" and t: "id' t = i"
    and pre: "i \<notin> id' ` set pre"
    by (rule first_match)
  then have "tarefas (removerTarefa i st) = pre @ post"
    by (simp add: removerTarefa_first)
  with ts t show "\<exists>t \<in> set (tarefas st). id' t = i \<and>
         mset (tarefas (removerTarefa i st)) = mset (tarefas st) - {#t#}"
    by auto
qed

text \<open>C6 on an array with the ids 1 and 2: removing 3 changes nothing, removing 2 leaves the task 1.\<close>

theorem removerTarefa_absent_or_present_witness:
  "3 \<notin> id' ` set [\<lparr>id' = 1, titulo = js ''a'', concluida = False\<rparr>,
                    \<lparr>id' = 2, titulo = js ''b'', concluida = True\<rparr>]
   \<and> removerTarefa 3 (vazio\<lparr>tarefas := [\<lparr>id' = 1, titulo = js ''a'', concluida = False\<rparr>,
                                         \<lparr>id' = 2, titulo = js ''b'', concluida = True\<rparr>]\<rparr>)
       = vazio\<lparr>tarefas := [\<lparr>id' = 1, titulo = js ''a'', concluida = False\<rparr>,
                            \<lparr>id' = 2, titulo = js ''b'', concluida = True\<rparr>]\<rparr>
   \<and> 2 \<in> id' ` set [\<lparr>id' = 1, titulo = js ''a'', concluida = False\<rparr>,
                    \<lparr>id' = 2, titulo = js ''b'', concluida = True\<rparr>]
   \<and> mset (tarefas (removerTarefa 2 (vazio\<lparr>tarefas := [\<lparr>id' = 1, titulo = js ''a'', concluida = False\<rparr>,
                                         \<lparr>id' = 2, titulo = js ''b'', concluida = True\<rparr>]\<rparr>)))
       = {#\<lparr>id' = 1, titulo = js ''a'', concluida = False\<rparr>#}"
  using removerTarefa_absent_or_present [of 3 "vazio\<lparr>tarefas := [\<lparr>id' = 1, titulo = js ''a'', concluida = False\<rparr>,
                                         \<lparr>id' = 2, titulo = js ''b'', concluida = True\<rparr>]\<rparr>"]
    removerTarefa_absent_or_present [of 2 "vazio\<lparr>tarefas := [\<lparr>id' = 1, titulo = js ''a'', concluida = False\<rparr>,
                                         \<lparr>id' = 2, titulo = js ''b'', concluida = True\<rparr>]\<rparr>"]
  by auto

subsection \<open>C7: the watcher keeps the store in step\<close>

text \<open>
  C7: for every call or write \<open>e\<close> of the presentation layer that changes the task
  array (adding, removing, writing the field concluida), once the queued callback of the
  watcher has run the store holds under the key \<^verbatim>\<open>'tarefas'\<close> the serialisation of the
  whole current array; assigning the filter changes the filter only: the array, the
  store and the queue of the watcher stay as they were, and so does what a later run of
  the callback writes.
\<close>

theorem watcher_persists_changes:
  "(tarefas (executar e st) \<noteq> tarefas st \<longrightarrow>
      localStorage (flush (executar e st)) (js ''tarefas'') =
        Some (JSON_stringify (tarefas (executar e st)))
      \<and> tarefas (flush (executar e st)) = tarefas (executar e st)
      \<and> \<not> watch_pendente (flush (executar e st)))
   \<and> tarefas (executar (Filtrar v) st) = tarefas st
   \<and> localStorage (executar (Filtrar v) st) = localStorage st
   \<and> watch_pendente (executar (Filtrar v) st) = watch_pendente st
   \<and> filtro (executar (Filtrar v) st) = v
   \<and> localStorage (flush (executar (Filtrar v) st)) = localStorage (flush st)"
proof (intro conjI impI)
  assume "tarefas (executar e st) \<noteq> tarefas st"
  then have p: "watch_pendente (executar e st)" by (rule changed_is_pending)
  then show "localStorage (flush (executar e st)) (js ''tarefas'') =
        Some (JSON_stringify (tarefas (executar e st)))"
    by (simp add: flush_def watch_callback_def)
  from p show "tarefas (flush (executar e st)) = tarefas (executar e st)"
    by (simp add: flush_def watch_callback_def)
  from p show "\<not> watch_pendente (flush (executar e st))"
    by (simp add: flush_def watch_callback_def)
qed (simp_all add: definir_filtro_def flush_def watch_callback_def)

text \<open>
  C7 on the empty array: adding the task a at the reading 1 changes the array and the
  store then holds its serialisation; assigning the filter leaves the store empty.
\<close>

theorem watcher_persists_changes_witness:
  "tarefas (executar (Adicionar 1 (js ''a'')) vazio) \<noteq> tarefas vazio
   \<and> localStorage (flush (executar (Adicionar 1 (js ''a'')) vazio)) (js ''tarefas'') =
       Some (js ''[{\"id\":1,\"titulo\":\"a\",\"concluida\":false}]'')
   \<and> localStorage (executar (Filtrar (js ''ativas'')) vazio) = Map.empty"
  using watcher_persists_changes [of "Adicionar 1 (js ''a'')" vazio "js ''ativas''"]
  by (simp add: adicionarTarefa_def push_def trim_eval stringify_eval)

subsection \<open>C8: the task just added\<close>

text \<open>
  C8: for every text whose trimmed form is not empty, after \<^verbatim>\<open>adicionarTarefa\<close> the
  array is the array before followed by the new task, so the earlier tasks stay in place
  and the new task is last; the new task is not completed, and it is among the tasks of
  \<^verbatim>\<open>tarefasFiltradas\<close> under \<^verbatim>\<open>'todas'\<close> and under \<^verbatim>\<open>'ativas'\<close>.
\<close>

theorem adicionarTarefa_appends_active:
  "trim t \<noteq> [] \<Longrightarrow>
     tarefas (adicionarTarefa agora t st) =
       tarefas st @ [\<lparr>id' = agora, titulo = t, concluida = False\<rparr>]
     \<and> concluida (last (tarefas (adicionarTarefa agora t st))) = False
     \<and> last (tarefas (adicionarTarefa agora t st))
         \<in> set (tarefasFiltradas (definir_filtro (js ''todas'') (adicionarTarefa agora t st)))
     \<and> last (tarefas (adicionarTarefa agora t st))
         \<in> set (tarefasFiltradas (definir_filtro (js ''ativas'') (adicionarTarefa agora t st)))"
  by (simp add: adicionarTarefa_def truthy_def push_def tarefasFiltradas_def definir_filtro_def
      js_literals)

text \<open>C8 on the empty array with the text Buy milk.\<close>

theorem adicionarTarefa_appends_active_witness:
  "trim (js ''Buy milk'') \<noteq> []
   \<and> tarefas (adicionarTarefa 7 (js ''Buy milk'') vazio) =
       [\<lparr>id' = 7, titulo = js ''Buy milk'', concluida = False\<rparr>]
   \<and> tarefasFiltradas (definir_filtro (js ''ativas'') (adicionarTarefa 7 (js ''Buy milk'') vazio)) =
       [\<lparr>id' = 7, titulo = js ''Buy milk'', concluida = False\<rparr>]"
proof -
  have h: "trim (js ''Buy milk'') \<noteq> []" by (simp add: trim_eval)
  show ?thesis
    using h adicionarTarefa_appends_active [OF h, of 7 vazio]
    by (simp add: tarefasFiltradas_def definir_filtro_def)
qed

subsection \<open>C9: writing, reading and writing again\<close>

text \<open>
  C9: for every task array, \<^verbatim>\<open>JSON.parse\<close> accepts the text that
  \<^verbatim>\<open>JSON.stringify\<close> writes and gives back the JSON value of the same array, from
  which the same tasks are read; serialising what was read gives the same text again;
  and \<^verbatim>\<open>useTarefas\<close> on a store that holds the text starts with the same tasks.
\<close>

theorem persistence_round_trip:
  "JSON_parse (JSON_stringify ts) = Inr (JArray (map tarefa_json ts))
   \<and> tarefas_de_json (JArray (map tarefa_json ts)) = Some ts
   \<and> (case JSON_parse (JSON_stringify ts) of
        Inl e \<Rightarrow> None
      | Inr v \<Rightarrow> map_option JSON_stringify (tarefas_de_json v)) = Some (JSON_stringify ts)
   \<and> useTarefas (ls(js ''tarefas'' \<mapsto> JSON_stringify ts)) =
       Inr (Pronto \<lparr>tarefas = ts, filtro = js ''todas'',
                    localStorage = ls(js ''tarefas'' \<mapsto> JSON_stringify ts),
                    watch_pendente = False\<rparr>)"
  by (simp add: JSON_parse_JSON_stringify tarefas_de_json_map useTarefas_def getItem_def truthy_def)
     (simp add: JSON_stringify_def)

text \<open>
  C9 on one task whose title has a quotation mark, a line feed and a lone surrogate: the
  text written, with its escapes, and the value read back from it.
\<close>

theorem persistence_round_trip_witness:
  "JSON_stringify [\<lparr>id' = 12, titulo = [0x61, 0x22, 0x0A, 0xD83D], concluida = True\<rparr>] =
     js ''[{\"id\":12,\"titulo\":\"a'' @ [0x5C, 0x22, 0x5C, 0x6E, 0x5C] @ js ''ud83d\",\"concluida\":true}]''
   \<and> JSON_parse (js ''[{\"id\":12,\"titulo\":\"a'' @ [0x5C, 0x22, 0x5C, 0x6E, 0x5C]
         @ js ''ud83d\",\"concluida\":true}]'') =
       Inr (JArray [JObject [(js ''id'', JNumber 12), (js ''titulo'', JString [0x61, 0x22, 0x0A, 0xD83D]),
                             (js ''concluida'', JBool True)]])"
  using persistence_round_trip [of "[\<lparr>id' = 12, titulo = [0x61, 0x22, 0x0A, 0xD83D], concluida = True\<rparr>]" Map.empty]
  by (simp add: stringify_eval tarefa_json_def)

subsection \<open>C10: only the first task with the id is removed\<close>

text \<open>
  C10: for every state and every id, the array after \<^verbatim>\<open>removerTarefa(id)\<close> is a
  subsequence of the array before (the order of the remaining tasks is kept) and is
  shorter by at most one task; when no task has the id, nothing is removed and the state
  is as it was; when a task has the id, the task removed is exactly the first one with
  it: the tasks before it and all the tasks after it, later tasks with the same id among
  them, remain, and nothing else of the state changes but the queue of the watcher.
\<close>

theorem removerTarefa_first_match_only:
  "subseq (tarefas (removerTarefa i st)) (tarefas st)
   \<and> length (tarefas st) \<le> length (tarefas (removerTarefa i st)) + 1
   \<and> (i \<notin> id' ` set (tarefas st) \<longrightarrow> removerTarefa i st = st)
   \<and> (\<forall>pre t post. tarefas st = pre @ t # post \<and> id' t = i \<and> i \<notin> id' ` set pre \<longrightarrow>
        removerTarefa i st = st\<lparr>tarefas := pre @ post, watch_pendente := True\<rparr>)"
proof (intro conjI allI impI)
  show "subseq (tarefas (removerTarefa i st)) (tarefas st)"
    using removerTarefa_cases [of i st] by (auto intro!: list_emb_append_mono)
  show "length (tarefas st) \<le> length (tarefas (removerTarefa i st)) + 1"
    using removerTarefa_cases [of i st] by auto
next
  assume "i \<notin> id' ` set (tarefas st)"
  then show "removerTarefa i st = st" by (rule removerTarefa_absent)
next
  fix pre t post
  assume "tarefas st = pre @ t # post \<and> id' t = i \<and> i \<notin> id' ` set pre"
  then show "removerTarefa i st = st\<lparr>tarefas := pre @ post, watch_pendente := True\<rparr>"
    using removerTarefa_first [of t i pre st post] by blast
qed

text \<open>
  C10 on an array with the ids 2, 1, 3, 1: removing 1 takes the second task and keeps the
  fourth; removing 5, which no task has, takes nothing.
\<close>

theorem removerTarefa_first_match_only_witness:
  "tarefas (removerTarefa 1 (vazio\<lparr>tarefas := [\<lparr>id' = 2, titulo = js ''a'', concluida = False\<rparr>,
       \<lparr>id' = 1, titulo = js ''b'', concluida = False\<rparr>,
       \<lparr>id' = 3, titulo = js ''c'', concluida = True\<rparr>,
       \<lparr>id' = 1, titulo = js ''d'', concluida = True\<rparr>]\<rparr>))
   = [\<lparr>id' = 2, titulo = js ''a'', concluida = False\<rparr>,
      \<lparr>id' = 3, titulo = js ''c'', concluida = True\<rparr>,
      \<lparr>id' = 1, titulo = js ''d'', concluida = True\<rparr>]
   \<and> 5 \<notin> id' ` set [\<lparr>id' = 2, titulo = js ''a'', concluida = False\<rparr>,
       \<lparr>id' = 1, titulo = js ''b'', concluida = False\<rparr>,
       \<lparr>id' = 3, titulo = js ''c'', concluida = True\<rparr>,
       \<lparr>id' = 1, titulo = js ''d'', concluida = True\<rparr>]
   \<and> tarefas (removerTarefa 5 (vazio\<lparr>tarefas := [\<lparr>id' = 2, titulo = js ''a'', concluida = False\<rparr>,
       \<lparr>id' = 1, titulo = js ''b'', concluida = False\<rparr>,
       \<lparr>id' = 3, titulo = js ''c'', concluida = True\<rparr>,
       \<lparr>id' = 1, titulo = js ''d'', concluida = True\<rparr>]\<rparr>))
   = [\<lparr>id' = 2, titulo = js ''a'', concluida = False\<rparr>,
      \<lparr>id' = 1, titulo = js ''b'', concluida = False\<rparr>,
      \<lparr>id' = 3, titulo = js ''c'', concluida = True\<rparr>,
      \<lparr>id' = 1, titulo = js ''d'', concluida = True\<rparr>]"
proof -
  let ?a = "\<lparr>id' = 2, titulo = js ''a'', concluida = False\<rparr>"
  let ?b = "\<lparr>id' = 1, titulo = js ''b'', concluida = False\<rparr>"
  let ?c = "\<lparr>id' = 3, titulo = js ''c'', concluida = True\<rparr>"
  let ?d = "\<lparr>id' = 1, titulo = js ''d'', concluida = True\<rparr>"
  let ?st = "vazio\<lparr>tarefas := [?a, ?b, ?c, ?d]\<rparr>"
  have "tarefas ?st = [?a] @ ?b # [?c, ?d] \<and> id' ?b = 1 \<and> 1 \<notin> id' ` set [?a]"
    by simp
  with removerTarefa_first_match_only [of 1 ?st]
  have 1: "removerTarefa 1 ?st = ?st\<lparr>tarefas := [?a] @ [?c, ?d], watch_pendente := True\<rparr>"
    by blast
  have n: "5 \<notin> id' ` set (tarefas ?st)" by simp
  with removerTarefa_first_match_only [of 5 ?st]
  have 2: "removerTarefa 5 ?st = ?st" by blast
  from n 1 2 show ?thesis by simp
qed

end
